theory Spec2Isabelle
  imports Complex_Main "HOL-Library.Sublist" "HOL-Library.AList" "HOL-Library.Multiset"
    "HOL-Library.Log_Nat"
begin

section \<open>JavaScript strings and POSIX paths\<close>

text \<open>
  The engine lives in the Electron main process (\<^verbatim>\<open>public/electron.js\<close>). A JavaScript
  string is a sequence of UTF-16 code units, so it is modelled as a list of numbers;
  \<open>js\<close> writes an ASCII literal.
\<close>

type_synonym jstring = "nat list"

definition js :: "string \<Rightarrow> jstring" where
  "js s = map of_char s"

definition slash :: nat where
  "slash = 47"

definition dot :: nat where
  "dot = 46"

text \<open>\<^verbatim>\<open>s.includes(t)\<close> and \<^verbatim>\<open>s.startsWith(t)\<close>.\<close>

fun includes_str :: "jstring \<Rightarrow> jstring \<Rightarrow> bool" where
  "includes_str [] t = (t = [])"
| "includes_str (c # s) t = (prefix t (c # s) \<or> includes_str s t)"

definition startsWith :: "jstring \<Rightarrow> jstring \<Rightarrow> bool" where
  "startsWith s t = prefix t s"

definition endsWith :: "jstring \<Rightarrow> jstring \<Rightarrow> bool" where
  "endsWith s t = suffix t s"

text \<open>
  \<^verbatim>\<open>path.basename\<close>, \<^verbatim>\<open>path.dirname\<close> and \<^verbatim>\<open>path.extname\<close> of Node's POSIX path
  module, written after its scanning loops: trailing separators are dropped, then the
  text after the last separator is the base name.
\<close>

definition basename :: "jstring \<Rightarrow> jstring" where
  "basename p = rev (takeWhile (\<lambda>c. c \<noteq> slash) (dropWhile (\<lambda>c. c = slash) (rev p)))"

definition dirname :: "jstring \<Rightarrow> jstring" where
  "dirname p =
     (case p of
        [] \<Rightarrow> [dot]
      | c # cs \<Rightarrow>
          (case dropWhile (\<lambda>x. x \<noteq> slash) (dropWhile (\<lambda>x. x = slash) (rev cs)) of
             [] \<Rightarrow> (if c = slash then [slash] else [dot])
           | _ # r \<Rightarrow> (if c = slash \<and> r = [] then [slash, slash] else c # rev r)))"

definition extname :: "jstring \<Rightarrow> jstring" where
  "extname p =
     (let seg = basename p;
          ext = rev (takeWhile (\<lambda>c. c \<noteq> dot) (rev seg));
          pre = rev (drop 1 (dropWhile (\<lambda>c. c \<noteq> dot) (rev seg)))
      in if pre = [] \<or> seg = [dot, dot] \<or> dot \<notin> set seg then [] else dot # ext)"

text \<open>
  \<^verbatim>\<open>path.join(dir, name)\<close> for a directory and one entry name. Node also normalises the
  result; every join of the engine takes a directory path and a single name without a
  separator, where normalising a normal directory path changes nothing.
\<close>

definition join :: "jstring \<Rightarrow> jstring \<Rightarrow> jstring" where
  "join d n = (if d \<noteq> [] \<and> last d = slash then d @ n else d @ [slash] @ n)"

text \<open>The components of a path, and how many levels a path lies below another.\<close>

fun components_acc :: "jstring \<Rightarrow> jstring \<Rightarrow> jstring list" where
  "components_acc cur [] = (if cur = [] then [] else [rev cur])"
| "components_acc cur (c # cs) =
     (if c = slash then (if cur = [] then [] else [rev cur]) @ components_acc [] cs
      else components_acc (c # cur) cs)"

definition components :: "jstring \<Rightarrow> jstring list" where
  "components p = components_acc [] p"

definition levels_below :: "jstring \<Rightarrow> jstring \<Rightarrow> int" where
  "levels_below rootPath p = int (length (components p)) - int (length (components rootPath))"

section \<open>The file system and the platform\<close>

text \<open>
  The file system is a table from paths to nodes, compared as written (no symbolic
  links). Every asynchronous call of \<^verbatim>\<open>fs\<close> can fail for a reason outside the program:
  the platform says, for the \<open>tick\<close>-th such call, whether it throws and with which
  message. The platform also holds the clock, the library functions the engine calls
  (\<^verbatim>\<open>Date\<close>, \<^verbatim>\<open>JSON\<close>, \<^verbatim>\<open>crypto\<close>, \<^verbatim>\<open>String.prototype.toLowerCase\<close>), the answer
  of the overwrite dialog, and whether the main window exists. \<^verbatim>\<open>formatFileSize\<close>
  computes a display string with floating-point logarithms; it is kept as a function
  of the size.
\<close>

record node =
  isDirectory :: bool
  bytes :: "nat list"
  birthtime :: int
  mtime :: int
  atime :: int

record metadata =
  originalPath :: jstring
  meta_size :: nat
  created :: int
  modified :: int
  backupDate :: int

text \<open>What \<^verbatim>\<open>JSON.parse\<close> gives back for a sidecar: any of the fields may be absent.\<close>

record parsed_metadata =
  pm_originalPath :: "jstring option"
  pm_backupDate :: "int option"

record platform =
  io_fails :: "nat \<Rightarrow> jstring option"
  clock :: "nat \<Rightarrow> int"
  userData :: jstring
  toISOString :: "int \<Rightarrow> jstring"
  dateToString :: "int \<Rightarrow> jstring"
  json_stringify :: "metadata \<Rightarrow> nat list"
  json_parse :: "nat list \<Rightarrow> parsed_metadata option"
  md5 :: "jstring \<Rightarrow> jstring"
  createHash :: "jstring \<Rightarrow> (nat list \<Rightarrow> jstring) option"
  toLowerCase :: "jstring \<Rightarrow> jstring"
  formatFileSize :: "nat \<Rightarrow> jstring"
  confirm_overwrite :: "jstring \<Rightarrow> bool"
  mainWindow :: bool

record world =
  files :: "(jstring \<times> node) list"
  tick :: nat

type_synonym 'a io = "(jstring + 'a) \<times> world"

definition lookup :: "world \<Rightarrow> jstring \<Rightarrow> node option" where
  "lookup w p = map_of (files w) p"

definition next_tick :: "world \<Rightarrow> world" where
  "next_tick w = w\<lparr>tick := Suc (tick w)\<rparr>"

definition now :: "platform \<Rightarrow> world \<Rightarrow> int" where
  "now pf w = clock pf (tick w)"

definition is_dir :: "world \<Rightarrow> jstring \<Rightarrow> bool" where
  "is_dir w p = (case lookup w p of None \<Rightarrow> False | Some n \<Rightarrow> isDirectory n)"

definition existsSync :: "world \<Rightarrow> jstring \<Rightarrow> bool" where
  "existsSync w p = (lookup w p \<noteq> None)"

definition put :: "jstring \<Rightarrow> node \<Rightarrow> world \<Rightarrow> world" where
  "put p n w = w\<lparr>files := AList.update p n (files w)\<rparr>"

definition new_file :: "platform \<Rightarrow> world \<Rightarrow> nat list \<Rightarrow> node" where
  "new_file pf w bs =
     \<lparr>isDirectory = False, bytes = bs, birthtime = now pf w, mtime = now pf w, atime = now pf w\<rparr>"

definition new_dir :: "platform \<Rightarrow> world \<Rightarrow> node" where
  "new_dir pf w =
     \<lparr>isDirectory = True, bytes = [], birthtime = now pf w, mtime = now pf w, atime = now pf w\<rparr>"

definition stat :: "platform \<Rightarrow> jstring \<Rightarrow> world \<Rightarrow> node io" where
  "stat pf p w =
     (case io_fails pf (tick w) of
        Some e \<Rightarrow> (Inl e, next_tick w)
      | None \<Rightarrow>
          (case lookup w p of
             None \<Rightarrow> (Inl (js ''ENOENT: no such file or directory''), next_tick w)
           | Some n \<Rightarrow> (Inr n, next_tick w)))"

definition readFile :: "platform \<Rightarrow> jstring \<Rightarrow> world \<Rightarrow> (nat list) io" where
  "readFile pf p w =
     (case io_fails pf (tick w) of
        Some e \<Rightarrow> (Inl e, next_tick w)
      | None \<Rightarrow>
          (case lookup w p of
             None \<Rightarrow> (Inl (js ''ENOENT: no such file or directory''), next_tick w)
           | Some n \<Rightarrow>
               if isDirectory n
               then (Inl (js ''EISDIR: illegal operation on a directory''), next_tick w)
               else (Inr (bytes n), next_tick w)))"

definition copyFile :: "platform \<Rightarrow> jstring \<Rightarrow> jstring \<Rightarrow> world \<Rightarrow> unit io" where
  "copyFile pf src dst w =
     (case io_fails pf (tick w) of
        Some e \<Rightarrow> (Inl e, next_tick w)
      | None \<Rightarrow>
          (case lookup w src of
             None \<Rightarrow> (Inl (js ''ENOENT: no such file or directory''), next_tick w)
           | Some n \<Rightarrow>
               if isDirectory n \<or> is_dir w dst
               then (Inl (js ''EISDIR: illegal operation on a directory''), next_tick w)
               else if \<not> is_dir w (dirname dst)
               then (Inl (js ''ENOENT: no such file or directory''), next_tick w)
               else (Inr (), next_tick (put dst (new_file pf w (bytes n)) w))))"

definition writeFile :: "platform \<Rightarrow> jstring \<Rightarrow> nat list \<Rightarrow> world \<Rightarrow> unit io" where
  "writeFile pf p bs w =
     (case io_fails pf (tick w) of
        Some e \<Rightarrow> (Inl e, next_tick w)
      | None \<Rightarrow>
          if is_dir w p
          then (Inl (js ''EISDIR: illegal operation on a directory''), next_tick w)
          else if \<not> is_dir w (dirname p)
          then (Inl (js ''ENOENT: no such file or directory''), next_tick w)
          else (Inr (), next_tick (put p (new_file pf w bs) w)))"

definition unlink :: "platform \<Rightarrow> jstring \<Rightarrow> world \<Rightarrow> unit io" where
  "unlink pf p w =
     (case io_fails pf (tick w) of
        Some e \<Rightarrow> (Inl e, next_tick w)
      | None \<Rightarrow>
          (case lookup w p of
             None \<Rightarrow> (Inl (js ''ENOENT: no such file or directory''), next_tick w)
           | Some n \<Rightarrow>
               if isDirectory n
               then (Inl (js ''EPERM: operation not permitted''), next_tick w)
               else (Inr (), next_tick (w\<lparr>files := AList.delete p (files w)\<rparr>))))"

text \<open>\<^verbatim>\<open>mkdir(p, {recursive: true})\<close>: the missing ancestors are created too.\<close>

definition ancestors :: "jstring \<Rightarrow> jstring list" where
  "ancestors p =
     filter (\<lambda>q. q \<noteq> [] \<and> last q \<noteq> slash)
       (map (\<lambda>i. take i p) (filter (\<lambda>i. p ! i = slash) [0..<length p]))"

fun make_dirs :: "platform \<Rightarrow> jstring list \<Rightarrow> world \<Rightarrow> world" where
  "make_dirs pf [] w = w"
| "make_dirs pf (q # qs) w =
     make_dirs pf qs (if existsSync w q then w else put q (new_dir pf w) w)"

definition mkdir :: "platform \<Rightarrow> jstring \<Rightarrow> world \<Rightarrow> unit io" where
  "mkdir pf p w =
     (case io_fails pf (tick w) of
        Some e \<Rightarrow> (Inl e, next_tick w)
      | None \<Rightarrow>
          if list_ex (\<lambda>q. existsSync w q \<and> \<not> is_dir w q) (ancestors p @ [p])
          then (Inl (js ''EEXIST: file already exists''), next_tick w)
          else (Inr (), next_tick (make_dirs pf (ancestors p @ [p]) w)))"

text \<open>\<^verbatim>\<open>readdir(p)\<close>: the names of the entries directly under \<open>p\<close>.\<close>

definition children :: "world \<Rightarrow> jstring \<Rightarrow> jstring list" where
  "children w p =
     map basename
       (filter (\<lambda>q. q \<noteq> p \<and> basename q \<noteq> [] \<and> join p (basename q) = q) (map fst (files w)))"

definition readdir :: "platform \<Rightarrow> jstring \<Rightarrow> world \<Rightarrow> (jstring list) io" where
  "readdir pf p w =
     (case io_fails pf (tick w) of
        Some e \<Rightarrow> (Inl e, next_tick w)
      | None \<Rightarrow>
          (case lookup w p of
             None \<Rightarrow> (Inl (js ''ENOENT: no such file or directory''), next_tick w)
           | Some n \<Rightarrow>
               if isDirectory n then (Inr (children w p), next_tick w)
               else (Inl (js ''ENOTDIR: not a directory''), next_tick w)))"

section \<open>Backup store and delete orchestrator\<close>

definition getTrashDirectory :: "platform \<Rightarrow> world \<Rightarrow> jstring io" where
  "getTrashDirectory pf w =
     (let trashPath = join (userData pf) (js ''trash'')
      in if \<not> existsSync w trashPath
         then (case mkdir pf trashPath w of
                 (Inl e, w1) \<Rightarrow> (Inl e, w1)
               | (Inr _, w1) \<Rightarrow> (Inr trashPath, w1))
         else (Inr trashPath, w))"

text \<open>\<^verbatim>\<open>new Date().toISOString().replace(/:/g, '-')\<close>\<close>

definition timestamp :: "platform \<Rightarrow> world \<Rightarrow> jstring" where
  "timestamp pf w = map (\<lambda>c. if c = 58 then 45 else c) (toISOString pf (now pf w))"

definition meta_suffix :: jstring where
  "meta_suffix = js ''.meta.json''"

text \<open>
  \<^verbatim>\<open>backupFile\<close>: the whole body runs in one \<^verbatim>\<open>try\<close>; whatever throws becomes
  \<^verbatim>\<open>{success: false, error}\<close> (\<open>Inl\<close>), success is \<^verbatim>\<open>{success: true, backupPath}\<close> (\<open>Inr\<close>).
\<close>

definition backupFile :: "platform \<Rightarrow> jstring \<Rightarrow> world \<Rightarrow> jstring io" where
  "backupFile pf filePath w =
     (case getTrashDirectory pf w of
        (Inl e, w1) \<Rightarrow> (Inl e, w1)
      | (Inr trashPath, w1) \<Rightarrow>
          (let fileName = basename filePath;
               backupFileName = timestamp pf w1 @ js ''_'' @ fileName;
               backupPath = join trashPath backupFileName
           in case stat pf filePath w1 of
                (Inl e, w2) \<Rightarrow> (Inl e, w2)
              | (Inr stats, w2) \<Rightarrow>
                  (let meta = \<lparr>originalPath = filePath, meta_size = length (bytes stats),
                               created = birthtime stats, modified = mtime stats,
                               backupDate = now pf w2\<rparr>
                   in case copyFile pf filePath backupPath w2 of
                        (Inl e, w3) \<Rightarrow> (Inl e, w3)
                      | (Inr _, w3) \<Rightarrow>
                          (case writeFile pf (backupPath @ meta_suffix) (json_stringify pf meta) w3 of
                             (Inl e, w4) \<Rightarrow> (Inl e, w4)
                           | (Inr _, w4) \<Rightarrow> (Inr backupPath, w4)))))"

record delete_outcome =
  out_path :: jstring
  deleted :: bool
  backupPath :: "jstring option"
  out_error :: "jstring option"
  backupFailed :: bool

record delete_result =
  del_success :: bool
  del_data :: "delete_outcome list"
  del_error :: "jstring option"

text \<open>One round of the \<^verbatim>\<open>for (const filePath of filePaths)\<close> loop of the handler.\<close>

definition delete_one :: "platform \<Rightarrow> jstring \<Rightarrow> world \<Rightarrow> delete_outcome \<times> world" where
  "delete_one pf filePath w =
     (if \<not> existsSync w filePath
      then (\<lparr>out_path = filePath, deleted = False, backupPath = None,
             out_error = Some (js ''File not found''), backupFailed = False\<rparr>, w)
      else case backupFile pf filePath w of
             (Inl e, w1) \<Rightarrow>
               (\<lparr>out_path = filePath, deleted = False, backupPath = None,
                 out_error = Some (js ''Backup failed: '' @ e), backupFailed = True\<rparr>, w1)
           | (Inr bp, w1) \<Rightarrow>
               (case unlink pf filePath w1 of
                  (Inl e, w2) \<Rightarrow>
                    (\<lparr>out_path = filePath, deleted = False, backupPath = None,
                      out_error = Some e, backupFailed = False\<rparr>, w2)
                | (Inr _, w2) \<Rightarrow>
                    (\<lparr>out_path = filePath, deleted = True, backupPath = Some bp,
                      out_error = None, backupFailed = False\<rparr>, w2)))"

fun delete_loop :: "platform \<Rightarrow> jstring list \<Rightarrow> world \<Rightarrow> delete_outcome list \<times> world" where
  "delete_loop pf [] w = ([], w)"
| "delete_loop pf (p # ps) w =
     (case delete_one pf p w of
        (r, w1) \<Rightarrow> (case delete_loop pf ps w1 of (rs, w2) \<Rightarrow> (r # rs, w2)))"

text \<open>The argument of the handler as it arrives over IPC: an array of paths or not.\<close>

datatype paths_arg = NotAnArray | Array "jstring list"

definition deleteFiles :: "platform \<Rightarrow> paths_arg \<Rightarrow> world \<Rightarrow> delete_result \<times> world" where
  "deleteFiles pf filePaths w =
     (case filePaths of
        NotAnArray \<Rightarrow>
          (\<lparr>del_success = False, del_data = [],
            del_error = Some (js ''No files provided for deletion'')\<rparr>, w)
      | Array ps \<Rightarrow>
          if ps = []
          then (\<lparr>del_success = False, del_data = [],
                 del_error = Some (js ''No files provided for deletion'')\<rparr>, w)
          else (case delete_loop pf ps w of
                  (results, w1) \<Rightarrow>
                    (\<lparr>del_success = list_all deleted results, del_data = results,
                      del_error = None\<rparr>, w1)))"

section \<open>Classifier\<close>

text \<open>
  A scan configuration as it travels between renderer and main process: every field
  may be \<^verbatim>\<open>undefined\<close> (\<open>None\<close>). \<open>num_or\<close> is \<^verbatim>\<open>x || d\<close> on numbers (0 and
  \<^verbatim>\<open>undefined\<close> are falsy), \<open>truthy\<close> is the truth value of an optional boolean.
\<close>

record scan_config =
  maxDepth :: "int option"
  ignoreDotFiles :: "bool option"
  ignoreSizeAbove :: "int option"
  includeHiddenFiles :: "bool option"
  scanSizeThreshold :: "int option"
  scanAgeThreshold :: "int option"

definition num_or :: "int option \<Rightarrow> int \<Rightarrow> int" where
  "num_or x d = (case x of None \<Rightarrow> d | Some v \<Rightarrow> if v = 0 then d else v)"

definition truthy :: "bool option \<Rightarrow> bool" where
  "truthy b = (b = Some True)"

record file_data =
  fd_path :: jstring
  fd_name :: jstring
  fd_size :: nat
  accessed :: int
  fd_modified :: int
  fd_created :: int
  extension :: jstring

datatype category = LargeUnused | Temporary | Installer | PotentialDuplicate

record analyzed_file =
  af_file :: file_data
  categories :: "category list"
  isUnneeded :: bool
  formattedSize :: jstring

text \<open>
  The name test \<^verbatim>\<open>/copy|<kopiya>|\(\d+\)|_\d+/i\<close>, whose second alternative is the
  Russian word for "copy" (code units 43A 43E 43F 438 44F). Under the \<^verbatim>\<open>i\<close> flag two
  code units match when their canonical (upper-case) forms agree; \<open>canonicalize\<close> gives
  that form for the Latin and Cyrillic letters, which covers every code unit that can
  match a letter of this pattern.
\<close>

definition canonicalize :: "nat \<Rightarrow> nat" where
  "canonicalize c =
     (if 97 \<le> c \<and> c \<le> 122 then c - 32
      else if 1072 \<le> c \<and> c \<le> 1103 then c - 32
      else if c = 7298 then 1054
      else c)"

definition includes_ci :: "jstring \<Rightarrow> jstring \<Rightarrow> bool" where
  "includes_ci s t = includes_str (map canonicalize s) (map canonicalize t)"

definition is_digit :: "nat \<Rightarrow> bool" where
  "is_digit c = (48 \<le> c \<and> c \<le> 57)"

fun has_paren_number :: "jstring \<Rightarrow> bool" where
  "has_paren_number [] = False"
| "has_paren_number (c # cs) =
     ((c = 40 \<and> takeWhile is_digit cs \<noteq> [] \<and> take 1 (dropWhile is_digit cs) = [41])
      \<or> has_paren_number cs)"

fun has_underscore_number :: "jstring \<Rightarrow> bool" where
  "has_underscore_number [] = False"
| "has_underscore_number (c # cs) =
     ((c = 95 \<and> takeWhile is_digit cs \<noteq> []) \<or> has_underscore_number cs)"

definition kopiya :: jstring where
  "kopiya = [1082, 1086, 1087, 1080, 1103]"

definition matches_copy_pattern :: "jstring \<Rightarrow> bool" where
  "matches_copy_pattern name =
     (includes_ci name (js ''copy'') \<or> includes_ci name kopiya
      \<or> has_paren_number name \<or> has_underscore_number name)"

definition tempExtensions :: "jstring list" where
  "tempExtensions = map js [''.tmp'', ''.temp'', ''.bak'', ''.cache'', ''.log'']"

definition downloadExtensions :: "jstring list" where
  "downloadExtensions =
     map js [''.dmg'', ''.exe'', ''.pkg'', ''.iso'', ''.zip'', ''.tar'', ''.gz'', ''.rar'']"

text \<open>
  The body of the \<^verbatim>\<open>files.map\<close> callback of \<^verbatim>\<open>analyzeFiles\<close>. \<open>t\<close> is what
  \<^verbatim>\<open>new Date()\<close> reads, in milliseconds; \<^verbatim>\<open>Math.floor\<close> of the quotient is \<open>div\<close>.
\<close>

definition daysSinceAccessed :: "int \<Rightarrow> file_data \<Rightarrow> int" where
  "daysSinceAccessed t f = (t - accessed f) div (1000 * 60 * 60 * 24)"

definition classify :: "scan_config \<Rightarrow> int \<Rightarrow> file_data \<Rightarrow> category list" where
  "classify config t f =
     (let OLD_FILE_THRESHOLD_DAYS = num_or (scanAgeThreshold config) 180;
          LARGE_FILE_THRESHOLD = num_or (scanSizeThreshold config) (100 * 1024 * 1024)
      in (if int (fd_size f) > LARGE_FILE_THRESHOLD \<and> daysSinceAccessed t f > OLD_FILE_THRESHOLD_DAYS
          then [LargeUnused] else [])
       @ (if extension f \<in> set tempExtensions then [Temporary] else [])
       @ (if extension f \<in> set downloadExtensions then [Installer] else [])
       @ (if matches_copy_pattern (fd_name f) then [PotentialDuplicate] else []))"

definition analyzeFile :: "platform \<Rightarrow> scan_config \<Rightarrow> int \<Rightarrow> file_data \<Rightarrow> analyzed_file" where
  "analyzeFile pf config t f =
     \<lparr>af_file = f, categories = classify config t f, isUnneeded = (classify config t f \<noteq> []),
      formattedSize = formatFileSize pf (fd_size f)\<rparr>"

definition analyzeFiles :: "platform \<Rightarrow> world \<Rightarrow> file_data list \<Rightarrow> scan_config \<Rightarrow> analyzed_file list" where
  "analyzeFiles pf w fs config = map (analyzeFile pf config (now pf w)) fs"

section \<open>Directory scanner\<close>

text \<open>What the main process sends to the renderer during a scan.\<close>

datatype ipc_event =
  ScanProgress (ev_processed: int) (ev_total: int) (ev_percentage: int)
| ScanBatch "analyzed_file list" bool

text \<open>
  JavaScript numbers are IEEE 754 binary64 values, and \<^verbatim>\<open>/\<close> and \<^verbatim>\<open>*\<close> round their exact
  result to the nearest such value, ties to the even significand. A positive rational
  \<open>x\<close> lies in one binade, \<open>2 powi e \<le> x < 2 powi (e + 1)\<close>; the binary64 values of that
  binade are the multiples of \<open>2 powi (e - 52)\<close>. The exponent range is left unbounded:
  quotients and products of file counts below \<open>2 ^ 53\<close> are neither subnormal nor
  infinite, and such counts are themselves exact.
\<close>

definition binade :: "rat \<Rightarrow> int" where
  "binade x = (let e0 = bitlen (fst (quotient_of x)) - bitlen (snd (quotient_of x))
               in if 2 powi e0 \<le> x then e0 else e0 - 1)"

definition round_half_even :: "rat \<Rightarrow> int" where
  "round_half_even m = (let f = \<lfloor>m\<rfloor> in
      if m - of_int f < 1 / 2 then f
      else if 1 / 2 < m - of_int f then f + 1
      else if even f then f else f + 1)"

definition round_pos :: "rat \<Rightarrow> rat" where
  "round_pos x = of_int (round_half_even (x / 2 powi (binade x - 52))) * 2 powi (binade x - 52)"

definition to_double :: "rat \<Rightarrow> rat" where
  "to_double x = (if x = 0 then 0 else if x < 0 then - round_pos (- x) else round_pos x)"

text \<open>\<^verbatim>\<open>Math.round\<close>: the nearest integer, halves upwards; exact on every binary64 value.\<close>

definition math_round :: "rat \<Rightarrow> int" where
  "math_round x = \<lfloor>x + 1 / 2\<rfloor>"

text \<open>
  \<^verbatim>\<open>total > 0 ? Math.round((processed / total) * 100) : 0\<close>, with both roundings of the
  double arithmetic: 230 of 400 is 57, where the exact quotient would give 58.
\<close>

definition percentage_of :: "int \<Rightarrow> int \<Rightarrow> int" where
  "percentage_of processed_n total_n =
     (if total_n > 0
      then math_round (to_double (to_double (of_int processed_n / of_int total_n) * 100))
      else 0)"

record progress_reporter =
  totalFiles :: int
  processedFiles :: int

record scan_state =
  st_world :: world
  pendingDirectories :: "jstring list"
  fileStats :: "file_data list"
  batchCount :: nat
  currentDepth :: int
  visitedDirs :: "jstring set"
  progressReporter :: "progress_reporter option"
  sent :: "ipc_event list"

text \<open>\<^verbatim>\<open>progressReporter.report()\<close>: nothing is sent without a main window.\<close>

definition report :: "platform \<Rightarrow> progress_reporter \<Rightarrow> ipc_event list \<Rightarrow> ipc_event list" where
  "report pf r evs =
     (if mainWindow pf
      then evs @ [ScanProgress (processedFiles r) (totalFiles r)
                    (percentage_of (processedFiles r) (totalFiles r))]
      else evs)"

text \<open>The directories neither \<^verbatim>\<open>countFiles\<close> nor \<^verbatim>\<open>scanDirectory\<close> goes into.\<close>

definition system_path :: "jstring \<Rightarrow> bool" where
  "system_path entryPath =
     (includes_str entryPath (js ''node_modules'') \<or> includes_str entryPath (js ''.git'')
      \<or> startsWith entryPath (js ''/System'') \<or> startsWith entryPath (js ''/Library/System''))"

text \<open>
  \<^verbatim>\<open>countFiles\<close>, the estimate of the pre-pass. \<open>countEntries\<close> is its \<^verbatim>\<open>for\<close> loop
  with the running \<^verbatim>\<open>count\<close> (\<open>cnt\<close>). A directory entry is a directory when the node under its
  path is one (\<^verbatim>\<open>withFileTypes\<close>).
\<close>

function countFiles :: "platform \<Rightarrow> jstring \<Rightarrow> int \<Rightarrow> int \<Rightarrow> world \<Rightarrow> int \<times> world"
  and countEntries :: "platform \<Rightarrow> jstring \<Rightarrow> jstring list \<Rightarrow> int \<Rightarrow> int \<Rightarrow> int \<Rightarrow> world \<Rightarrow> int \<times> world"
where
  "countFiles pf directoryPath maxDepth' depth w =
     (if depth > maxDepth' then (10, w)
      else case readdir pf directoryPath w of
             (Inl e, w1) \<Rightarrow> (0, w1)
           | (Inr entries, w1) \<Rightarrow> countEntries pf directoryPath entries maxDepth' depth 0 w1)"
| "countEntries pf directoryPath [] maxDepth' depth cnt w = (cnt, w)"
| "countEntries pf directoryPath (name # entries) maxDepth' depth cnt w =
     (let entryPath = join directoryPath name
      in if system_path entryPath
         then countEntries pf directoryPath entries maxDepth' depth cnt w
         else if is_dir w entryPath
         then (case countFiles pf entryPath maxDepth' (depth + 1) w of
                 (n, w1) \<Rightarrow> countEntries pf directoryPath entries maxDepth' depth (cnt + n) w1)
         else countEntries pf directoryPath entries maxDepth' depth (cnt + 1) w)"
  by pat_completeness auto
termination
  by (relation "inv_image (less_than <*lex*> less_than)
        (\<lambda>x. case x of
           Inl (pf, d, m, depth, w) \<Rightarrow> (2 * nat (m + 1 - depth), 0)
         | Inr (pf, d, es, m, depth, c, w) \<Rightarrow> (2 * nat (m - depth) + 1, length es))")
     auto

declare countFiles.simps [simp del]

text \<open>
  One entry of the \<^verbatim>\<open>for (const entry of entries)\<close> loop of \<^verbatim>\<open>scanDirectory\<close>. A
  \<^verbatim>\<open>stat\<close> that throws is logged and the entry skipped.
\<close>

definition MAX_BATCH_SIZE :: nat where
  "MAX_BATCH_SIZE = 500"

definition size_excluded :: "scan_config \<Rightarrow> nat \<Rightarrow> bool" where
  "size_excluded config sz =
     (case ignoreSizeAbove config of
        None \<Rightarrow> False
      | Some limit \<Rightarrow> limit > 0 \<and> int sz > limit)"

definition count_progress :: "platform \<Rightarrow> scan_state \<Rightarrow> scan_state" where
  "count_progress pf st =
     (case progressReporter st of
        None \<Rightarrow> st
      | Some r \<Rightarrow>
          (let r' = r\<lparr>processedFiles := processedFiles r + 1\<rparr>
           in st\<lparr>progressReporter := Some r',
                 sent := (if processedFiles r' mod 10 = 0 then report pf r' (sent st) else sent st)\<rparr>))"

definition flush_batch :: "platform \<Rightarrow> scan_config \<Rightarrow> scan_state \<Rightarrow> scan_state" where
  "flush_batch pf config st =
     (let st1 = st\<lparr>batchCount := Suc (batchCount st)\<rparr>
      in if batchCount st1 \<ge> MAX_BATCH_SIZE \<and> pendingDirectories st1 \<noteq> []
         then (if mainWindow pf
               then st1\<lparr>sent := sent st1 @ [ScanBatch (analyzeFiles pf (st_world st1) (fileStats st1) config) False],
                        fileStats := [], batchCount := 0\<rparr>
               else st1\<lparr>batchCount := 0\<rparr>)
         else st1)"

definition scan_entry :: "platform \<Rightarrow> scan_config \<Rightarrow> jstring \<Rightarrow> jstring \<Rightarrow> scan_state \<Rightarrow> scan_state" where
  "scan_entry pf config currentDir name st =
     (if truthy (ignoreDotFiles config) \<and> startsWith name (js ''.'') \<and> \<not> truthy (includeHiddenFiles config)
      then st
      else
        (let entryPath = join currentDir name
         in case stat pf entryPath (st_world st) of
              (Inl e, w1) \<Rightarrow> st\<lparr>st_world := w1\<rparr>
            | (Inr stats, w1) \<Rightarrow>
                if isDirectory stats
                then (if system_path entryPath then st\<lparr>st_world := w1\<rparr>
                      else st\<lparr>st_world := w1,
                              pendingDirectories := pendingDirectories st @ [entryPath]\<rparr>)
                else if size_excluded config (length (bytes stats)) then st\<lparr>st_world := w1\<rparr>
                else
                  (let fileData = \<lparr>fd_path = entryPath, fd_name = name,
                                     fd_size = length (bytes stats), accessed = atime stats,
                                     fd_modified = mtime stats, fd_created = birthtime stats,
                                     extension = toLowerCase pf (extname name)\<rparr>
                   in flush_batch pf config
                        (count_progress pf
                           (st\<lparr>st_world := w1, fileStats := fileStats st @ [fileData]\<rparr>)))))"

fun scan_entries :: "platform \<Rightarrow> scan_config \<Rightarrow> jstring \<Rightarrow> jstring list \<Rightarrow> scan_state \<Rightarrow> scan_state" where
  "scan_entries pf config currentDir [] st = st"
| "scan_entries pf config currentDir (name # entries) st =
     scan_entries pf config currentDir entries (scan_entry pf config currentDir name st)"

text \<open>
  The \<^verbatim>\<open>while\<close> loop of \<^verbatim>\<open>scanDirectory\<close>. A directory already visited is skipped by
  \<^verbatim>\<open>continue\<close>, which also skips \<^verbatim>\<open>currentDepth++\<close>; every other round ends with it.
  With \<^verbatim>\<open>maxDepth\<close> undefined the comparison is false and the loop does not run.
\<close>

definition depth_allows :: "scan_config \<Rightarrow> int \<Rightarrow> bool" where
  "depth_allows config depth = (case maxDepth config of None \<Rightarrow> False | Some m \<Rightarrow> depth \<le> m)"

definition scan_dir :: "platform \<Rightarrow> scan_config \<Rightarrow> jstring \<Rightarrow> scan_state \<Rightarrow> scan_state" where
  "scan_dir pf config currentDir st =
     (case readdir pf currentDir (st_world st) of
        (Inl e, w1) \<Rightarrow> st\<lparr>st_world := w1\<rparr>
      | (Inr entries, w1) \<Rightarrow> scan_entries pf config currentDir entries (st\<lparr>st_world := w1\<rparr>))"

text \<open>The same function with the result of \<^verbatim>\<open>readdir\<close> taken apart by projections.\<close>

lemma scan_dir_code [code]:
  "scan_dir pf config currentDir st =
     (case fst (readdir pf currentDir (st_world st)) of
        Inl e \<Rightarrow> st\<lparr>st_world := snd (readdir pf currentDir (st_world st))\<rparr>
      | Inr entries \<Rightarrow>
          scan_entries pf config currentDir entries
            (st\<lparr>st_world := snd (readdir pf currentDir (st_world st))\<rparr>))"
  by (simp add: scan_dir_def split: prod.splits sum.splits)

function scan_loop :: "platform \<Rightarrow> scan_config \<Rightarrow> scan_state \<Rightarrow> scan_state" where
  "scan_loop pf config st =
     (case pendingDirectories st of
        [] \<Rightarrow> st
      | currentDir # rest \<Rightarrow>
          if \<not> depth_allows config (currentDepth st) then st
          else if currentDir \<in> visitedDirs st
          then scan_loop pf config (st\<lparr>pendingDirectories := rest\<rparr>)
          else
            (let st1 = scan_dir pf config currentDir
                         (st\<lparr>pendingDirectories := rest,
                             visitedDirs := insert currentDir (visitedDirs st)\<rparr>)
             in scan_loop pf config (st1\<lparr>currentDepth := currentDepth st1 + 1\<rparr>)))"
  by pat_completeness auto

lemma currentDepth_count_progress: "currentDepth (count_progress pf st) = currentDepth st"
  by (simp add: count_progress_def Let_def split: option.splits)

lemma currentDepth_flush_batch: "currentDepth (flush_batch pf config st) = currentDepth st"
  by (simp add: flush_batch_def Let_def)

lemma currentDepth_scan_entry: "currentDepth (scan_entry pf config d n st) = currentDepth st"
  by (simp add: scan_entry_def Let_def currentDepth_flush_batch currentDepth_count_progress
      split: prod.splits sum.splits)

lemma currentDepth_scan_entries: "currentDepth (scan_entries pf config d ns st) = currentDepth st"
  by (induction ns arbitrary: st) (simp_all add: currentDepth_scan_entry)

lemma currentDepth_scan_dir: "currentDepth (scan_dir pf config d st) = currentDepth st"
  by (simp add: scan_dir_def currentDepth_scan_entries split: prod.splits sum.splits)

termination scan_loop
  by (relation "inv_image (less_than <*lex*> less_than)
        (\<lambda>(pf, config, st).
           (case maxDepth config of None \<Rightarrow> 0 | Some m \<Rightarrow> nat (m + 1 - currentDepth st),
            length (pendingDirectories st)))")
     (auto simp: depth_allows_def currentDepth_scan_dir split: option.splits)

declare scan_loop.simps [simp del]

text \<open>
  \<^verbatim>\<open>scanDirectory\<close> returns \<^verbatim>\<open>fileStats\<close>; the state it ends in also holds what was
  sent and the reporter's counters. \<open>evs\<close> is what had been sent before the call.
\<close>

definition scanDirectory ::
  "platform \<Rightarrow> jstring \<Rightarrow> progress_reporter option \<Rightarrow> scan_config \<Rightarrow> ipc_event list \<Rightarrow> world \<Rightarrow> scan_state" where
  "scanDirectory pf directoryPath reporter config evs w =
     scan_loop pf config
       \<lparr>st_world = w, pendingDirectories = [directoryPath], fileStats = [], batchCount = 0,
        currentDepth = 0, visitedDirs = {}, progressReporter = reporter, sent = evs\<rparr>"

text \<open>The configuration the \<^verbatim>\<open>scan-directory\<close> handler builds from the request.\<close>

definition scan_defaults :: "scan_config \<Rightarrow> scan_config" where
  "scan_defaults scanConfig =
     \<lparr>maxDepth = Some (num_or (maxDepth scanConfig) 10),
      ignoreDotFiles = Some (ignoreDotFiles scanConfig \<noteq> Some False),
      ignoreSizeAbove = Some (num_or (ignoreSizeAbove scanConfig) 1024 * 1024 * 1024),
      includeHiddenFiles = Some (truthy (includeHiddenFiles scanConfig)),
      scanSizeThreshold = Some (num_or (scanSizeThreshold scanConfig) 100 * 1024 * 1024),
      scanAgeThreshold = Some (num_or (scanAgeThreshold scanConfig) 180)\<rparr>"

record scan_result =
  sr_data :: "analyzed_file list"
  sr_sent :: "ipc_event list"
  sr_processed :: int
  sr_total :: int

text \<open>
  The \<^verbatim>\<open>scan-directory\<close> handler. Nothing in its body throws (the helpers catch their
  own errors), so it always answers \<^verbatim>\<open>{success: true, data}\<close>; besides the data the
  result records what was sent, the number of files the scan counted as processed, and
  the estimate of the pre-pass.
\<close>

definition scan_directory :: "platform \<Rightarrow> jstring \<Rightarrow> scan_config \<Rightarrow> world \<Rightarrow> scan_result \<times> world" where
  "scan_directory pf directoryPath scanConfig w =
     (let config = scan_defaults scanConfig;
          (total_n, w1) = countFiles pf directoryPath (num_or (maxDepth scanConfig) 10) 0 w;
          r0 = \<lparr>totalFiles = total_n, processedFiles = 0\<rparr>;
          st = scanDirectory pf directoryPath (Some r0) config (report pf r0 []) w1;
          results = fileStats st;
          r1 = (case progressReporter st of None \<Rightarrow> r0 | Some r \<Rightarrow> r);
          evs1 = report pf (r1\<lparr>processedFiles := totalFiles r1\<rparr>) (sent st);
          analyzedResults = analyzeFiles pf (st_world st) results config
      in (\<lparr>sr_data = analyzedResults,
           sr_sent = (if mainWindow pf \<and> results \<noteq> []
                      then evs1 @ [ScanBatch analyzedResults True] else evs1),
           sr_processed = processedFiles r1, sr_total = total_n\<rparr>,
          st_world st))"

text \<open>The progress reports among the events sent, and their percentages.\<close>

definition is_progress :: "ipc_event \<Rightarrow> bool" where
  "is_progress e = (case e of ScanProgress p t pc \<Rightarrow> True | ScanBatch fs d \<Rightarrow> False)"

definition percentages :: "ipc_event list \<Rightarrow> int list" where
  "percentages evs = map ev_percentage (filter is_progress evs)"

text \<open>
  What holds of the reporter and of the events sent, at every point of a scan whose
  estimate is \<open>T\<close>: each progress report carries the estimate and the percentage
  computed from its own count, and the counts reported so far are in order and lie
  between 0 and the reporter's count.
\<close>

definition procs :: "ipc_event list \<Rightarrow> int list" where
  "procs evs = map ev_processed (filter is_progress evs)"

definition wf_event :: "int \<Rightarrow> ipc_event \<Rightarrow> bool" where
  "wf_event T e =
     (case e of
        ScanProgress p t pc \<Rightarrow> t = T \<and> pc = percentage_of p T
      | ScanBatch fs d \<Rightarrow> True)"

definition progress_inv :: "int \<Rightarrow> scan_state \<Rightarrow> bool" where
  "progress_inv T st =
     (case progressReporter st of
        None \<Rightarrow> False
      | Some r \<Rightarrow>
          totalFiles r = T \<and> 0 \<le> processedFiles r \<and> list_all (wf_event T) (sent st)
          \<and> sorted (procs (sent st))
          \<and> list_all (\<lambda>p. 0 \<le> p \<and> p \<le> processedFiles r) (procs (sent st)))"

text \<open>
  What holds of the queue, of the records collected and of the batches sent while a scan
  below \<open>rootPath\<close> with \<open>maxDepth = M\<close> runs: the pending directories lie at most \<open>k\<close>
  levels below the root, and every record has a path at most \<open>M + 1\<close> levels below it
  (its directory at most \<open>M\<close>).
\<close>

definition batch_ok :: "jstring \<Rightarrow> int \<Rightarrow> ipc_event \<Rightarrow> bool" where
  "batch_ok rootPath M e =
     (case e of
        ScanProgress p t pc \<Rightarrow> True
      | ScanBatch fs d \<Rightarrow> list_all (\<lambda>a. levels_below rootPath (fd_path (af_file a)) \<le> M + 1) fs)"

definition depth_inv :: "jstring \<Rightarrow> int \<Rightarrow> int \<Rightarrow> scan_state \<Rightarrow> bool" where
  "depth_inv rootPath M k st =
     (list_all (\<lambda>q. levels_below rootPath q \<le> k) (pendingDirectories st)
      \<and> list_all (\<lambda>f. levels_below rootPath (fd_path f) \<le> M + 1) (fileStats st)
      \<and> list_all (batch_ok rootPath M) (sent st))"

section \<open>Hashing service\<close>

text \<open>
  \<^verbatim>\<open>fs.open\<close>, \<^verbatim>\<open>fs.read\<close> into a zero-filled buffer of \<open>len\<close> bytes at a position, and
  \<^verbatim>\<open>fs.close\<close>, on the path the descriptor stands for.
\<close>

definition open_file :: "platform \<Rightarrow> jstring \<Rightarrow> world \<Rightarrow> unit io" where
  "open_file pf p w =
     (case io_fails pf (tick w) of
        Some e \<Rightarrow> (Inl e, next_tick w)
      | None \<Rightarrow>
          (case lookup w p of
             None \<Rightarrow> (Inl (js ''ENOENT: no such file or directory''), next_tick w)
           | Some n \<Rightarrow> (Inr (), next_tick w)))"

definition read_at :: "platform \<Rightarrow> jstring \<Rightarrow> nat \<Rightarrow> nat \<Rightarrow> world \<Rightarrow> (nat list) io" where
  "read_at pf p len pos w =
     (case io_fails pf (tick w) of
        Some e \<Rightarrow> (Inl e, next_tick w)
      | None \<Rightarrow>
          (case lookup w p of
             None \<Rightarrow> (Inl (js ''EBADF: bad file descriptor''), next_tick w)
           | Some n \<Rightarrow>
               if isDirectory n
               then (Inl (js ''EISDIR: illegal operation on a directory''), next_tick w)
               else (Inr (take len (drop pos (bytes n))
                          @ replicate (len - length (take len (drop pos (bytes n)))) 0),
                     next_tick w)))"

definition close_file :: "platform \<Rightarrow> world \<Rightarrow> unit io" where
  "close_file pf w =
     (case io_fails pf (tick w) of
        Some e \<Rightarrow> (Inl e, next_tick w)
      | None \<Rightarrow> (Inr (), next_tick w))"

text \<open>
  \<^verbatim>\<open>calculateFileHash\<close>: the digest, or \<^verbatim>\<open>null\<close> (\<open>None\<close>) when anything in its
  \<^verbatim>\<open>try\<close> block throws. \<open>sampled_hash\<close> is the branch for files larger than three
  samples, \<open>full_hash\<close> the other one.
\<close>

definition digest :: "platform \<Rightarrow> jstring \<Rightarrow> nat list \<Rightarrow> jstring option" where
  "digest pf algorithm bs = (case createHash pf algorithm of None \<Rightarrow> None | Some h \<Rightarrow> Some (h bs))"

definition full_hash :: "platform \<Rightarrow> jstring \<Rightarrow> jstring \<Rightarrow> world \<Rightarrow> jstring option \<times> world" where
  "full_hash pf filePath algorithm w =
     (case readFile pf filePath w of
        (Inl e, w1) \<Rightarrow> (None, w1)
      | (Inr bs, w1) \<Rightarrow> (digest pf algorithm bs, w1))"

definition sampled_hash :: "platform \<Rightarrow> jstring \<Rightarrow> jstring \<Rightarrow> int \<Rightarrow> world \<Rightarrow> jstring option \<times> world" where
  "sampled_hash pf filePath algorithm sampleSize' w =
     (case open_file pf filePath w of
        (Inl e, w1) \<Rightarrow> (None, w1)
      | (Inr _, w1) \<Rightarrow>
          if sampleSize' < 0 then (None, w1)
          else
            (case stat pf filePath w1 of
               (Inl e, w2) \<Rightarrow> (None, w2)
             | (Inr stats, w2) \<Rightarrow>
                 (let fileSize = int (length (bytes stats));
                      middlePosition = fileSize div 2 - sampleSize' div 2;
                      endPosition = fileSize - sampleSize'
                  in case read_at pf filePath (nat sampleSize') 0 w2 of
                       (Inl e, w3) \<Rightarrow> (None, w3)
                     | (Inr buffer1, w3) \<Rightarrow>
                         (case read_at pf filePath (nat sampleSize') (nat middlePosition) w3 of
                            (Inl e, w4) \<Rightarrow> (None, w4)
                          | (Inr buffer2, w4) \<Rightarrow>
                              (case read_at pf filePath (nat sampleSize') (nat endPosition) w4 of
                                 (Inl e, w5) \<Rightarrow> (None, w5)
                               | (Inr buffer3, w5) \<Rightarrow>
                                   (case close_file pf w5 of
                                      (Inl e, w6) \<Rightarrow> (None, w6)
                                    | (Inr _, w6) \<Rightarrow>
                                        (digest pf algorithm (buffer1 @ buffer2 @ buffer3), w6)))))))"

definition calculateFileHash ::
  "platform \<Rightarrow> jstring \<Rightarrow> jstring \<Rightarrow> int option \<Rightarrow> world \<Rightarrow> jstring option \<times> world" where
  "calculateFileHash pf filePath algorithm sampleSize w =
     (if num_or sampleSize 0 = 0 then full_hash pf filePath algorithm w
      else case stat pf filePath w of
             (Inl e, w1) \<Rightarrow> (None, w1)
           | (Inr stats, w1) \<Rightarrow>
               if int (length (bytes stats)) > num_or sampleSize 0 * 3
               then sampled_hash pf filePath algorithm (num_or sampleSize 0) w1
               else full_hash pf filePath algorithm w1)"

section \<open>Duplicate detector\<close>

record dup_options =
  opt_scanDirectory :: bool
  minSize :: "int option"
  maxSize :: "int option"
  exactMatch :: "bool option"
  hashAlgorithm :: "jstring option"
  sampleSize :: "int option"
  compareSize :: "bool option"

record hashed_file =
  hf_path :: jstring
  hf_hash :: "jstring option"
  hf_size :: nat
  hf_name :: jstring
  hf_extension :: jstring

record dup_member =
  dm_path :: jstring
  dm_size :: nat
  dm_name :: jstring
  dm_extension :: jstring

record dup_progress =
  dp_processed :: nat
  dp_total :: nat
  dp_percentage :: int

text \<open>
  A \<^verbatim>\<open>Map\<close> from keys to arrays keeps its keys in insertion order. \<open>map_push\<close> is
  \<^verbatim>\<open>if (!m.has(k)) m.set(k, []); m.get(k).push(v)\<close>.
\<close>

definition map_push :: "'k \<Rightarrow> 'v \<Rightarrow> ('k \<times> 'v list) list \<Rightarrow> ('k \<times> 'v list) list" where
  "map_push k v m =
     (if k \<in> set (map fst m)
      then map (\<lambda>(k', vs). if k' = k then (k', vs @ [v]) else (k', vs)) m
      else m @ [(k, [v])])"

record dup_state =
  ds_world :: world
  fileHashes :: "(nat \<times> hashed_file list) list"
  potentialDuplicates :: "(jstring option \<times> dup_member list) list"
  processed :: nat
  dup_sent :: "dup_progress list"

definition or_md5 :: "jstring option \<Rightarrow> jstring" where
  "or_md5 a = (case a of None \<Rightarrow> js ''md5'' | Some s \<Rightarrow> if s = [] then js ''md5'' else s)"

definition too_small :: "dup_options \<Rightarrow> nat \<Rightarrow> bool" where
  "too_small options sz = (num_or (minSize options) 0 \<noteq> 0 \<and> int sz < num_or (minSize options) 0)"

definition too_large :: "dup_options \<Rightarrow> nat \<Rightarrow> bool" where
  "too_large options sz = (num_or (maxSize options) 0 \<noteq> 0 \<and> int sz > num_or (maxSize options) 0)"

definition skip_file :: "world \<Rightarrow> dup_state \<Rightarrow> dup_state" where
  "skip_file w1 st = st\<lparr>ds_world := w1, processed := Suc (processed st)\<rparr>"

text \<open>
  The callback of \<^verbatim>\<open>batch.map\<close> for one path. The callbacks of one batch run under
  \<^verbatim>\<open>Promise.all\<close>; the model runs them one after the other, in the order of the batch.
  \<open>total_n\<close> is \<^verbatim>\<open>filePaths.length\<close>.
\<close>

definition record_file :: "dup_options \<Rightarrow> jstring \<Rightarrow> nat \<Rightarrow> jstring option \<Rightarrow> platform \<Rightarrow> dup_state \<Rightarrow> dup_state" where
  "record_file options filePath sz fileHash pf st =
     (if compareSize options \<noteq> Some False
      then st\<lparr>fileHashes :=
                map_push sz
                  \<lparr>hf_path = filePath, hf_hash = fileHash, hf_size = sz,
                   hf_name = basename filePath,
                   hf_extension = toLowerCase pf (extname filePath)\<rparr>
                  (fileHashes st)\<rparr>
      else st\<lparr>potentialDuplicates :=
                map_push fileHash
                  \<lparr>dm_path = filePath, dm_size = sz, dm_name = basename filePath,
                   dm_extension = toLowerCase pf (extname filePath)\<rparr>
                  (potentialDuplicates st)\<rparr>)"

definition report_duplicates :: "nat \<Rightarrow> dup_state \<Rightarrow> dup_state" where
  "report_duplicates total_n st =
     (if processed st mod 10 = 0 \<or> processed st = total_n
      then st\<lparr>dup_sent := dup_sent st
                 @ [\<lparr>dp_processed = processed st, dp_total = total_n,
                      dp_percentage = percentage_of (int (processed st)) (int total_n)\<rparr>]\<rparr>
      else st)"

definition process_file :: "platform \<Rightarrow> dup_options \<Rightarrow> nat \<Rightarrow> jstring \<Rightarrow> dup_state \<Rightarrow> dup_state" where
  "process_file pf options total_n filePath st =
     (case stat pf filePath (ds_world st) of
        (Inl e, w1) \<Rightarrow> skip_file w1 st
      | (Inr stats, w1) \<Rightarrow>
          if isDirectory stats then skip_file w1 st
          else if too_small options (length (bytes stats)) then skip_file w1 st
          else if too_large options (length (bytes stats)) then skip_file w1 st
          else
            (case (if exactMatch options \<noteq> Some False
                   then calculateFileHash pf filePath (or_md5 (hashAlgorithm options)) None w1
                   else calculateFileHash pf filePath (or_md5 (hashAlgorithm options))
                          (Some (num_or (sampleSize options) 4096)) w1) of
               (fileHash, w2) \<Rightarrow>
                 report_duplicates total_n
                   (skip_file w2 (record_file options filePath (length (bytes stats)) fileHash pf st))))"

fun process_batch :: "platform \<Rightarrow> dup_options \<Rightarrow> nat \<Rightarrow> jstring list \<Rightarrow> dup_state \<Rightarrow> dup_state" where
  "process_batch pf options total_n [] st = st"
| "process_batch pf options total_n (filePath # batch) st =
     process_batch pf options total_n batch (process_file pf options total_n filePath st)"

definition BATCH_SIZE :: nat where
  "BATCH_SIZE = 20"

function process_batches :: "platform \<Rightarrow> dup_options \<Rightarrow> nat \<Rightarrow> jstring list \<Rightarrow> dup_state \<Rightarrow> dup_state" where
  "process_batches pf options total_n filePaths st =
     (if filePaths = [] then st
      else process_batches pf options total_n (drop BATCH_SIZE filePaths)
             (process_batch pf options total_n (take BATCH_SIZE filePaths) st))"
  by pat_completeness auto
termination
  by (relation "measure (\<lambda>(pf, options, total_n, filePaths, st). length filePaths)")
     (auto simp: BATCH_SIZE_def)

declare process_batches.simps [simp del]

text \<open>
  After the size pre-check: the files of every size bucket with more than one member
  are pushed under their hash.
\<close>

definition as_member :: "hashed_file \<Rightarrow> dup_member" where
  "as_member f = \<lparr>dm_path = hf_path f, dm_size = hf_size f, dm_name = hf_name f,
                  dm_extension = hf_extension f\<rparr>"

fun push_files :: "hashed_file list \<Rightarrow> (jstring option \<times> dup_member list) list
    \<Rightarrow> (jstring option \<times> dup_member list) list" where
  "push_files [] pd = pd"
| "push_files (f # fs) pd = push_files fs (map_push (hf_hash f) (as_member f) pd)"

fun group_buckets :: "(nat \<times> hashed_file list) list \<Rightarrow> (jstring option \<times> dup_member list) list
    \<Rightarrow> (jstring option \<times> dup_member list) list" where
  "group_buckets [] pd = pd"
| "group_buckets ((sizeKey, fs) # buckets) pd =
     group_buckets buckets (if length fs \<le> 1 then pd else push_files fs pd)"

record duplicate_group =
  g_hash :: "jstring option"
  g_size :: nat
  g_files :: "dup_member list"

record dup_result =
  duplicateGroups :: "duplicate_group list"
  totalDuplicates :: nat
  potentialSavings :: nat

text \<open>
  The extraction loop with its two running sums; \<^verbatim>\<open>files[0]\<close> exists where it is read,
  as the group has more than one file.
\<close>

fun extract_groups :: "(jstring option \<times> dup_member list) list \<Rightarrow> dup_result \<Rightarrow> dup_result" where
  "extract_groups [] acc = acc"
| "extract_groups ((h, fs) # rest) acc =
     extract_groups rest
       (case fs of
          [] \<Rightarrow> acc
        | f0 # others \<Rightarrow>
            if length fs > 1
            then acc\<lparr>duplicateGroups := duplicateGroups acc @ [\<lparr>g_hash = h, g_size = dm_size f0, g_files = fs\<rparr>],
                     totalDuplicates := totalDuplicates acc + (length fs - 1),
                     potentialSavings := potentialSavings acc + dm_size f0 * (length fs - 1)\<rparr>
            else acc)"

text \<open>
  \<^verbatim>\<open>duplicateGroups.sort((a, b) => b.size * b.files.length - a.size * a.files.length)\<close>:
  a stable sort, largest product first.
\<close>

definition sort_groups :: "duplicate_group list \<Rightarrow> duplicate_group list" where
  "sort_groups gs = sort_key (\<lambda>g. - int (g_size g * length (g_files g))) gs"

text \<open>
  The \<^verbatim>\<open>find-duplicates\<close> handler: \<open>Inl\<close> is \<^verbatim>\<open>{success: false, error}\<close>. With the
  \<^verbatim>\<open>scanDirectory\<close> option and one path, the handler calls \<^verbatim>\<open>getAllFiles\<close>, which no
  file of the repository defines: the call throws a \<^verbatim>\<open>ReferenceError\<close>, caught by the
  handler's \<^verbatim>\<open>try\<close>.
\<close>

definition find_duplicates ::
  "platform \<Rightarrow> jstring list \<Rightarrow> dup_options \<Rightarrow> world
     \<Rightarrow> (jstring + dup_result) \<times> dup_progress list \<times> world" where
  "find_duplicates pf filePaths options w =
     (if opt_scanDirectory options \<and> length filePaths = 1
      then (if \<not> existsSync w (hd filePaths)
            then (Inl (js ''Directory does not exist''), [], w)
            else (Inl (js ''getAllFiles is not defined''), [], w))
      else
        (let total_n = length filePaths;
             st = process_batches pf options total_n filePaths
                    \<lparr>ds_world = w, fileHashes = [], potentialDuplicates = [], processed = 0,
                     dup_sent = [\<lparr>dp_processed = 0, dp_total = total_n, dp_percentage = 0\<rparr>]\<rparr>;
             pd = (if compareSize options \<noteq> Some False
                   then group_buckets (fileHashes st) (potentialDuplicates st)
                   else potentialDuplicates st);
             res = extract_groups pd \<lparr>duplicateGroups = [], totalDuplicates = 0, potentialSavings = 0\<rparr>
         in (Inr (res\<lparr>duplicateGroups := sort_groups (duplicateGroups res)\<rparr>), dup_sent st, ds_world st)))"

section \<open>Backup store: listing and restore\<close>

record backup_record =
  b_id :: jstring
  b_originalPath :: jstring
  b_backupPath :: jstring
  b_fileName :: jstring
  b_size :: nat
  b_backupDate :: int
  b_formattedSize :: jstring

text \<open>
  \<^verbatim>\<open>name.replace(/^[0-9\-TZ_]+_/, '')\<close>: the longest prefix of digits, \<^verbatim>\<open>-\<close>, \<^verbatim>\<open>T\<close>, \<^verbatim>\<open>Z\<close>
  and \<^verbatim>\<open>_\<close> that ends in an underscore and holds a character before it is removed.
\<close>

definition stamp_char :: "nat \<Rightarrow> bool" where
  "stamp_char c = (is_digit c \<or> c = 45 \<or> c = 84 \<or> c = 90 \<or> c = 95)"

definition strip_stamp :: "jstring \<Rightarrow> jstring" where
  "strip_stamp name =
     (let r = dropWhile (\<lambda>c. c \<noteq> 95) (rev (takeWhile stamp_char name))
      in if length r \<ge> 2 then drop (length r) name else name)"

text \<open>
  The callback of \<^verbatim>\<open>backupFiles.map\<close> in \<^verbatim>\<open>getBackupsList\<close>: the record of one backup
  file, or \<^verbatim>\<open>null\<close> (\<open>None\<close>) when anything throws. A sidecar that is absent gives the
  empty metadata object.
\<close>

definition backup_of :: "platform \<Rightarrow> jstring \<Rightarrow> node \<Rightarrow> parsed_metadata \<Rightarrow> backup_record" where
  "backup_of pf backupPath' backupStats md =
     \<lparr>b_id = md5 pf (backupPath' @ dateToString pf (mtime backupStats)),
      b_originalPath =
        (case pm_originalPath md of
           None \<Rightarrow> js ''Unknown''
         | Some p \<Rightarrow> if p = [] then js ''Unknown'' else p),
      b_backupPath = backupPath',
      b_fileName = strip_stamp (basename backupPath'),
      b_size = length (bytes backupStats),
      b_backupDate = (case pm_backupDate md of None \<Rightarrow> mtime backupStats | Some d \<Rightarrow> d),
      b_formattedSize = formatFileSize pf (length (bytes backupStats))\<rparr>"

definition list_backup :: "platform \<Rightarrow> jstring \<Rightarrow> jstring \<Rightarrow> world \<Rightarrow> backup_record option \<times> world" where
  "list_backup pf trashPath fileName w =
     (case stat pf (join trashPath fileName) w of
        (Inl e, w1) \<Rightarrow> (None, w1)
      | (Inr backupStats, w1) \<Rightarrow>
          if existsSync w1 (join trashPath fileName @ meta_suffix)
          then (case readFile pf (join trashPath fileName @ meta_suffix) w1 of
                  (Inl e, w2) \<Rightarrow> (None, w2)
                | (Inr metadataContent, w2) \<Rightarrow>
                    (case json_parse pf metadataContent of
                       None \<Rightarrow> (None, w2)
                     | Some md \<Rightarrow> (Some (backup_of pf (join trashPath fileName) backupStats md), w2)))
          else (Some (backup_of pf (join trashPath fileName) backupStats
                        \<lparr>pm_originalPath = None, pm_backupDate = None\<rparr>), w1))"

text \<open>
  The listing keeps the records that are not \<^verbatim>\<open>null\<close>. The callbacks run under
  \<^verbatim>\<open>Promise.all\<close>; the model runs them in the order of the directory listing.
\<close>

fun list_backups :: "platform \<Rightarrow> jstring \<Rightarrow> jstring list \<Rightarrow> world \<Rightarrow> backup_record list \<times> world" where
  "list_backups pf trashPath [] w = ([], w)"
| "list_backups pf trashPath (f # fs) w =
     (case list_backup pf trashPath f w of
        (r, w1) \<Rightarrow>
          (case list_backups pf trashPath fs w1 of
             (rs, w2) \<Rightarrow> ((case r of None \<Rightarrow> rs | Some b \<Rightarrow> b # rs), w2)))"

definition getBackupsList :: "platform \<Rightarrow> world \<Rightarrow> backup_record list \<times> world" where
  "getBackupsList pf w =
     (case getTrashDirectory pf w of
        (Inl e, w1) \<Rightarrow> ([], w1)
      | (Inr trashPath, w1) \<Rightarrow>
          (case readdir pf trashPath w1 of
             (Inl e, w2) \<Rightarrow> ([], w2)
           | (Inr fileNames, w2) \<Rightarrow>
               list_backups pf trashPath
                 (filter (\<lambda>f. \<not> endsWith f meta_suffix) fileNames) w2))"

text \<open>
  \<^verbatim>\<open>restoreBackup\<close>: \<open>Inl\<close> is \<^verbatim>\<open>{success: false, error}\<close>, \<open>Inr\<close> is
  \<^verbatim>\<open>{success: true, restoredTo}\<close>. The target is \<^verbatim>\<open>null\<close> (\<open>None\<close>) or a string, and the
  empty string is falsy.
\<close>

definition given :: "jstring option \<Rightarrow> bool" where
  "given targetPath = (case targetPath of None \<Rightarrow> False | Some t \<Rightarrow> t \<noteq> [])"

definition restoreBackup ::
  "platform \<Rightarrow> jstring \<Rightarrow> jstring option \<Rightarrow> world \<Rightarrow> (jstring + jstring) \<times> world" where
  "restoreBackup pf backupId targetPath w =
     (case getBackupsList pf w of
        (backups, w1) \<Rightarrow>
          (case find (\<lambda>b. b_id b = backupId) backups of
             None \<Rightarrow> (Inl (js ''Backup not found''), w1)
           | Some backup \<Rightarrow>
               (let restorationPath =
                      (case targetPath of
                         None \<Rightarrow> b_originalPath backup
                       | Some t \<Rightarrow> if t = [] then b_originalPath backup else t)
                in if \<not> given targetPath \<and> b_originalPath backup = []
                   then (Inl (js ''Original path not found. Please specify a target path.''), w1)
                   else if \<not> existsSync w1 (dirname restorationPath)
                   then (Inl (js ''Target directory does not exist: '' @ dirname restorationPath), w1)
                   else if existsSync w1 restorationPath \<and> \<not> confirm_overwrite pf restorationPath
                   then (Inl (js ''Restoration cancelled by user''), w1)
                   else (case copyFile pf (b_backupPath backup) restorationPath w1 of
                           (Inl e, w2) \<Rightarrow> (Inl (js ''Error restoring backup: '' @ e), w2)
                         | (Inr _, w2) \<Rightarrow> (Inr restorationPath, w2)))))"

section \<open>A small file system for the examples\<close>

definition demo_platform :: platform where
  "demo_platform =
     \<lparr>io_fails = (\<lambda>_. None), clock = (\<lambda>t. 1700000000000 + int t), userData = js ''/u'',
      toISOString = (\<lambda>_. js ''2023-11-14T22:13:20.000Z''), dateToString = (\<lambda>_. js ''Tue Nov 14 2023''),
      json_stringify = (\<lambda>m. originalPath m),
      json_parse = (\<lambda>bs. Some \<lparr>pm_originalPath = Some bs, pm_backupDate = None\<rparr>),
      md5 = (\<lambda>s. s), createHash = (\<lambda>_. Some (\<lambda>bs. bs)), toLowerCase = (\<lambda>s. s),
      formatFileSize = (\<lambda>_. []), confirm_overwrite = (\<lambda>_. False), mainWindow = True\<rparr>"

definition demo_dir :: node where
  "demo_dir = \<lparr>isDirectory = True, bytes = [], birthtime = 0, mtime = 0, atime = 0\<rparr>"

definition demo_file :: "nat list \<Rightarrow> node" where
  "demo_file bs = \<lparr>isDirectory = False, bytes = bs, birthtime = 0, mtime = 0, atime = 0\<rparr>"

definition demo_world :: world where
  "demo_world =
     \<lparr>files = [(js ''/u'', demo_dir), (js ''/u/trash'', demo_dir), (js ''/d'', demo_dir),
               (js ''/d/a.txt'', demo_file [104, 105])],
      tick = 0\<rparr>"


text \<open>A scan request that sets the depth and the size limit and leaves the rest out.\<close>

definition request :: "int option \<Rightarrow> int option \<Rightarrow> scan_config" where
  "request depth limit =
     \<lparr>maxDepth = depth, ignoreDotFiles = None, ignoreSizeAbove = limit,
      includeHiddenFiles = None, scanSizeThreshold = None, scanAgeThreshold = None\<rparr>"

text \<open>A root with two subdirectories, one file in each.\<close>

definition depth_world :: world where
  "depth_world =
     \<lparr>files = [(js ''/r'', demo_dir), (js ''/r/a'', demo_dir), (js ''/r/b'', demo_dir),
               (js ''/r/a/x.txt'', demo_file [1]), (js ''/r/b/y.txt'', demo_file [2])],
      tick = 0\<rparr>"

text \<open>A directory with one image file of 2 GiB.\<close>

definition huge_world :: world where
  "huge_world =
     \<lparr>files = [(js ''/v'', demo_dir), (js ''/v/disk.img'', demo_file (replicate 2147483648 0))],
      tick = 0\<rparr>"

text \<open>
  A directory with fifteen files, ten of which have ".git" in their names (the
  pre-pass leaves them out of its count), and an empty directory.
\<close>

definition names15 :: "jstring list" where
  "names15 =
     map js [''a0.git'', ''a1.git'', ''a2.git'', ''a3.git'', ''a4.git'', ''a5.git'', ''a6.git'',
             ''a7.git'', ''a8.git'', ''a9.git'', ''f0'', ''f1'', ''f2'', ''f3'', ''f4'']"

definition progress_world :: world where
  "progress_world =
     \<lparr>files = (js ''/p'', demo_dir) # map (\<lambda>n. (js ''/p/'' @ n, demo_file [1])) names15,
      tick = 0\<rparr>"

definition empty_world :: world where
  "empty_world = \<lparr>files = [(js ''/e'', demo_dir)], tick = 0\<rparr>"

text \<open>A file of 200 MB last read at time 0, and the clock 100 and 400 days later.\<close>

definition old_big_file :: file_data where
  "old_big_file =
     \<lparr>fd_path = js ''/d/movie.mkv'', fd_name = js ''movie.mkv'', fd_size = 200 * 1024 * 1024,
      accessed = 0, fd_modified = 0, fd_created = 0, extension = js ''.mkv''\<rparr>"

definition days :: "int \<Rightarrow> int" where
  "days n = n * (1000 * 60 * 60 * 24)"

text \<open>
  Four files for the duplicate detector: two of 7 bytes and two of 8 bytes whose first
  two, middle two and last two bytes are the same. The demo platform's digest of a byte
  sequence is the sequence itself, for every algorithm.
\<close>

definition sampled_world :: world where
  "sampled_world =
     \<lparr>files = [(js ''/s'', demo_dir),
               (js ''/s/a.bin'', demo_file [1, 1, 2, 2, 0, 3, 3]),
               (js ''/s/a2.bin'', demo_file [1, 1, 2, 2, 0, 3, 3]),
               (js ''/s/b.bin'', demo_file [1, 1, 0, 2, 2, 0, 3, 3]),
               (js ''/s/b2.bin'', demo_file [1, 1, 0, 2, 2, 0, 3, 3])],
      tick = 0\<rparr>"

definition sampled_options :: dup_options where
  "sampled_options =
     \<lparr>opt_scanDirectory = False, minSize = None, maxSize = None, exactMatch = Some False,
      hashAlgorithm = Some (js ''md5''), sampleSize = Some 2, compareSize = Some True\<rparr>"

definition default_options :: dup_options where
  "default_options =
     \<lparr>opt_scanDirectory = False, minSize = None, maxSize = None, exactMatch = Some True,
      hashAlgorithm = Some (js ''md5''), sampleSize = Some 4096, compareSize = Some True\<rparr>"

text \<open>
  Two files of the same size and different content, on a platform where the second and
  the fourth I/O call (the two \<^verbatim>\<open>readFile\<close> calls of the hashing) fail.
\<close>

definition unreadable_world :: world where
  "unreadable_world =
     \<lparr>files = [(js ''/q'', demo_dir), (js ''/q/u1'', demo_file [1, 2, 3]),
               (js ''/q/u2'', demo_file [4, 5, 6])],
      tick = 0\<rparr>"

definition unreadable_platform :: platform where
  "unreadable_platform =
     demo_platform\<lparr>io_fails :=
       (\<lambda>t. if t = 1 \<or> t = 3 then Some (js ''EACCES: permission denied'') else None)\<rparr>"

text \<open>
  A backup store holding one backup with its sidecar. On the demo platform the
  identifier of a backup is its path followed by the text of its modification date.
\<close>

definition restore_world :: world where
  "restore_world =
     \<lparr>files = [(js ''/u'', demo_dir), (js ''/u/trash'', demo_dir), (js ''/d'', demo_dir),
               (js ''/u/trash/2023-11-14T22-13-20.000Z_a.txt'', demo_file [104, 105]),
               (js ''/u/trash/2023-11-14T22-13-20.000Z_a.txt.meta.json'', demo_file (js ''/d/a.txt''))],
      tick = 0\<rparr>"

definition demo_backup_id :: jstring where
  "demo_backup_id = js ''/u/trash/2023-11-14T22-13-20.000Z_a.txtTue Nov 14 2023''"

section \<open>Double rounding and percentages\<close>

lemma pow2_pos: "0 < (2::rat) powi e"
  by simp

lemma pow2_mono: "a \<le> b \<Longrightarrow> (2::rat) powi a \<le> 2 powi b"
  by (rule power_int_increasing) simp_all

lemma pow2_less_imp: "(2::rat) powi a < 2 powi b \<Longrightarrow> a < b"
  using pow2_mono[of b a] by (cases "a < b") simp_all

lemma pow2_of_nat: "0 \<le> n \<Longrightarrow> (2::rat) powi n = of_int (2 ^ nat n)"
  by (simp add: power_int_def)

lemma binade_bounds:
  assumes "0 < x"
  shows "2 powi binade x \<le> x \<and> x < 2 powi (binade x + 1)"
proof -
  obtain a b where q: "quotient_of x = (a, b)" by (cases "quotient_of x")
  have b: "0 < b" using q by (rule quotient_of_denom_pos)
  have x: "x = of_int a / of_int b" using q by (rule quotient_of_div)
  have a: "0 < a" using assms b x by (simp add: zero_less_divide_iff)
  let ?la = "bitlen a" and ?lb = "bitlen b"
  have la: "1 \<le> ?la" "1 \<le> ?lb" using a b bitlen_eq_zero_iff[of a] bitlen_eq_zero_iff[of b]
      bitlen_nonneg[of a] bitlen_nonneg[of b] by linarith+
  have a1: "(2::rat) powi (?la - 1) \<le> of_int a" and a2: "of_int a < (2::rat) powi ?la"
    using bitlen_bounds[OF a] la
    by (simp_all add: pow2_of_nat del: of_int_power) 
  have b1: "(2::rat) powi (?lb - 1) \<le> of_int b" and b2: "of_int b < (2::rat) powi ?lb"
    using bitlen_bounds[OF b] la
    by (simp_all add: pow2_of_nat del: of_int_power)
  have up: "x < 2 powi (?la - ?lb + 1)"
  proof -
    have "x < 2 powi ?la / 2 powi (?lb - 1)"
      unfolding x using a2 b1 b a
      by (intro frac_less) simp_all
    also have "\<dots> = 2 powi (?la - ?lb + 1)"
      by (simp add: power_int_diff[symmetric] algebra_simps)
    finally show ?thesis .
  qed
  have lo: "2 powi (?la - ?lb - 1) \<le> x"
  proof -
    have "2 powi (?la - 1) / 2 powi ?lb \<le> x"
      unfolding x using a1 b2 b a
      by (intro frac_le) simp_all
    moreover have "(2::rat) powi (?la - 1) / 2 powi ?lb = 2 powi (?la - ?lb - 1)"
      by (simp add: power_int_diff[symmetric] algebra_simps)
    ultimately show ?thesis by simp
  qed
  show ?thesis
    using up lo q by (auto simp: binade_def Let_def not_le)
qed

lemma binade_mono:
  assumes "0 < x" "x \<le> y"
  shows "binade x \<le> binade y"
proof -
  have "2 powi binade x \<le> x" using binade_bounds[OF assms(1)] by simp
  also have "x \<le> y" by fact
  also have "y < 2 powi (binade y + 1)" using binade_bounds[of y] assms by simp
  finally have "binade x < binade y + 1" by (rule pow2_less_imp)
  then show ?thesis by simp
qed

lemma round_half_even_bounds: "\<lfloor>m\<rfloor> \<le> round_half_even m \<and> round_half_even m \<le> \<lfloor>m\<rfloor> + 1"
  by (simp add: round_half_even_def Let_def)

lemma round_half_even_mono:
  assumes "m \<le> n"
  shows "round_half_even m \<le> round_half_even n"
proof (cases "\<lfloor>m\<rfloor> = \<lfloor>n\<rfloor>")
  case True
  then show ?thesis using assms by (auto simp: round_half_even_def Let_def)
next
  case False
  then have "\<lfloor>m\<rfloor> + 1 \<le> \<lfloor>n\<rfloor>" using floor_mono[OF assms] by simp
  then show ?thesis
    using round_half_even_bounds[of m] round_half_even_bounds[of n] by linarith
qed

lemma round_half_even_of_int: "round_half_even (of_int k) = k"
  by (simp add: round_half_even_def)

lemma mantissa_bounds:
  assumes "0 < x"
  shows "2 ^ 52 \<le> x / 2 powi (binade x - 52) \<and> x / 2 powi (binade x - 52) < 2 ^ 53"
proof -
  have e: "(2::rat) powi binade x = 2 ^ 52 * 2 powi (binade x - 52)"
    "(2::rat) powi (binade x + 1) = 2 ^ 53 * 2 powi (binade x - 52)"
    by (simp_all add: power_int_diff power_int_add)
  show ?thesis
    using binade_bounds[OF assms] unfolding e
    by (simp add: pos_le_divide_eq pos_divide_less_eq)
qed

lemma round_pos_bounds:
  assumes "0 < x"
  shows "2 powi binade x \<le> round_pos x \<and> round_pos x \<le> 2 powi (binade x + 1)"
proof -
  let ?u = "(2::rat) powi (binade x - 52)"
  let ?m = "x / ?u"
  have e: "(2::rat) powi binade x = 2 ^ 52 * ?u" "(2::rat) powi (binade x + 1) = 2 ^ 53 * ?u"
    by (simp_all add: power_int_diff power_int_add)
  have "round_half_even (of_int (2 ^ 52)) \<le> round_half_even ?m"
    using mantissa_bounds[OF assms] by (intro round_half_even_mono) simp
  then have lo: "(2::rat) ^ 52 \<le> of_int (round_half_even ?m)"
    unfolding round_half_even_of_int by (metis of_int_le_iff of_int_numeral of_int_power)
  have "round_half_even ?m \<le> round_half_even (of_int (2 ^ 53))"
    using mantissa_bounds[OF assms] by (intro round_half_even_mono) simp
  then have hi: "of_int (round_half_even ?m) \<le> (2::rat) ^ 53"
    unfolding round_half_even_of_int by (metis of_int_le_iff of_int_numeral of_int_power)
  show ?thesis
    unfolding e round_pos_def using lo hi by (simp add: mult_right_mono)
qed

lemma round_pos_mono:
  assumes "0 < x" "x \<le> y"
  shows "round_pos x \<le> round_pos y"
proof (cases "binade x = binade y")
  case True
  have "x / 2 powi (binade y - 52) \<le> y / 2 powi (binade y - 52)"
    using assms(2) by (simp add: divide_right_mono)
  then have "round_half_even (x / 2 powi (binade y - 52)) \<le> round_half_even (y / 2 powi (binade y - 52))"
    by (rule round_half_even_mono)
  then show ?thesis
    unfolding round_pos_def True by (simp add: mult_right_mono)
next
  case False
  then have "binade x + 1 \<le> binade y" using binade_mono[OF assms] by simp
  then have "(2::rat) powi (binade x + 1) \<le> 2 powi binade y" by (rule pow2_mono)
  moreover have "round_pos x \<le> 2 powi (binade x + 1)" using round_pos_bounds[OF assms(1)] by simp
  moreover have "2 powi binade y \<le> round_pos y" using round_pos_bounds[of y] assms by simp
  ultimately show ?thesis by linarith
qed

lemma round_pos_pos: "0 < x \<Longrightarrow> 0 < round_pos x"
  using round_pos_bounds[of x] pow2_pos[of "binade x"] by linarith

lemma to_double_mono:
  assumes "0 \<le> x" "x \<le> y"
  shows "to_double x \<le> to_double y"
proof (cases "x = 0")
  case True
  then show ?thesis using assms round_pos_pos[of y] by (auto simp: to_double_def)
next
  case False
  then show ?thesis using assms round_pos_mono[of x y] by (auto simp: to_double_def)
qed

lemma to_double_zero: "to_double 0 = 0"
  by (simp add: to_double_def)

lemma to_double_one: "to_double 1 = 1"
  by code_simp

lemma to_double_hundred: "to_double 100 = 100"
  by code_simp

lemma to_double_nonneg: "0 \<le> x \<Longrightarrow> 0 \<le> to_double x"
  using to_double_mono[of 0 x] by (simp add: to_double_zero)

lemma math_round_mono: "x \<le> y \<Longrightarrow> math_round x \<le> math_round y"
  unfolding math_round_def by (intro floor_mono) simp

lemma math_round_of_int: "math_round (of_int n) = n"
  unfolding math_round_def by (rule floor_unique) simp_all

lemma math_round_numeral: "math_round (numeral k) = numeral k"
  using math_round_of_int[of "numeral k"] by simp

lemma math_round_zero: "math_round 0 = 0"
  using math_round_of_int[of 0] by simp

lemma percentage_of_mono:
  assumes "0 \<le> p" "p \<le> q"
  shows "percentage_of p T \<le> percentage_of q T"
proof (cases "0 < T")
  case True
  have "(0::rat) \<le> of_int p / of_int T" "(of_int p :: rat) / of_int T \<le> of_int q / of_int T"
    using assms True by (simp_all add: divide_right_mono)
  then have "0 \<le> to_double (of_int p / of_int T)"
    "to_double (of_int p / of_int T) \<le> to_double (of_int q / of_int T)"
    by (simp_all add: to_double_nonneg to_double_mono)
  then have "to_double (to_double (of_int p / of_int T) * 100)
      \<le> to_double (to_double (of_int q / of_int T) * 100)"
    by (intro to_double_mono) simp_all
  then show ?thesis using True by (simp add: percentage_of_def math_round_mono)
next
  case False
  then show ?thesis by (simp add: percentage_of_def)
qed

lemma percentage_of_zero: "percentage_of 0 T = 0"
  by (simp add: percentage_of_def to_double_zero math_round_zero)

lemma percentage_of_nonneg: "0 \<le> p \<Longrightarrow> 0 \<le> percentage_of p T"
  using percentage_of_mono[of 0 p T] by (simp add: percentage_of_zero)

lemma percentage_of_full: "0 < T \<Longrightarrow> percentage_of T T = 100"
  by (simp add: percentage_of_def to_double_one to_double_hundred math_round_numeral)

lemma percentage_of_zero_total: "T \<le> 0 \<Longrightarrow> percentage_of p T = 0"
  by (simp add: percentage_of_def)

lemma percentage_of_le_100:
  assumes "0 \<le> p" "p \<le> T"
  shows "percentage_of p T \<le> 100"
proof (cases "0 < T")
  case True
  have "percentage_of p T \<le> percentage_of T T" using assms by (rule percentage_of_mono)
  then show ?thesis using percentage_of_full[OF True] by simp
next
  case False
  then show ?thesis by (simp add: percentage_of_def)
qed

lemma percentage_of_double_rounding: "percentage_of 230 400 = 57"
  by code_simp

section \<open>Delete orchestrator: backup before removal\<close>

lemma basename_no_slash: "slash \<notin> set (basename p)"
  unfolding basename_def using set_takeWhileD by fastforce

lemma basename_append_ge:
  assumes "slash \<notin> set s" "s \<noteq> []"
  shows "length s \<le> length (basename (x @ s))"
proof -
  have l: "last s \<noteq> slash" using assms by (metis last_in_set)
  have "rev (x @ s) = rev s @ rev x" by simp
  have hd: "hd (rev s) \<noteq> slash" using l assms(2) by (simp add: hd_rev)
  have dw: "dropWhile (\<lambda>c. c = slash) (rev s @ rev x) = rev s @ rev x"
    using hd assms(2) by (cases "rev s") auto
  have tw: "takeWhile (\<lambda>c. c \<noteq> slash) (rev s @ rev x) = rev s @ takeWhile (\<lambda>c. c \<noteq> slash) (rev x)"
    by (rule takeWhile_append2) (use assms(1) in auto)
  show ?thesis unfolding basename_def by (simp add: dw tw)
qed

lemma join_shape: "\<exists>x. join d n = x @ n"
  unfolding join_def by (metis append.assoc)

lemma backup_path_fresh:
  assumes "slash \<notin> set sfx"
  shows "join d (ts @ js ''_'' @ basename p) @ sfx \<noteq> p"
proof
  assume eq: "join d (ts @ js ''_'' @ basename p) @ sfx = p"
  obtain x where x: "join d (ts @ js ''_'' @ basename p) = x @ (ts @ js ''_'' @ basename p)"
    using join_shape by blast
  let ?s = "js ''_'' @ basename p @ sfx"
  have "slash \<notin> set ?s" using assms basename_no_slash by (simp add: js_def slash_def)
  moreover have "?s \<noteq> []" by (simp add: js_def)
  ultimately have "length ?s \<le> length (basename ((x @ ts) @ ?s))" by (rule basename_append_ge)
  moreover have "(x @ ts) @ ?s = p" using eq x by simp
  ultimately have "length ?s \<le> length (basename p)" by simp
  then show False by (simp add: js_def)
qed

lemma lookup_next_tick [simp]: "lookup (next_tick w) p = lookup w p"
  by (simp add: lookup_def next_tick_def)

lemma lookup_put: "lookup (put q n w) p = (if p = q then Some n else lookup w p)"
  by (simp add: lookup_def put_def update_conv')

lemma lookup_make_dirs_old: "lookup w p \<noteq> None \<Longrightarrow> lookup (make_dirs pf qs w) p = lookup w p"
proof (induction qs arbitrary: w)
  case Nil then show ?case by simp
next
  case (Cons q qs)
  then show ?case by (auto simp: lookup_put existsSync_def)
qed

lemma stat_frame: "stat pf p w = (r, w1) \<Longrightarrow> lookup w1 q = lookup w q"
  by (auto simp: stat_def split: option.splits)

lemma stat_ok: "stat pf p w = (Inr n, w1) \<Longrightarrow> lookup w p = Some n"
  by (auto simp: stat_def split: option.splits)

lemma copyFile_frame: "copyFile pf src dst w = (r, w1) \<Longrightarrow> q \<noteq> dst \<Longrightarrow> lookup w1 q = lookup w q"
  by (auto simp: copyFile_def lookup_put split: option.splits if_splits)

lemma copyFile_ok:
  "copyFile pf src dst w = (Inr u, w1) \<Longrightarrow>
     \<exists>n. lookup w src = Some n \<and> \<not> isDirectory n \<and> map_option bytes (lookup w1 dst) = Some (bytes n)"
  by (auto simp: copyFile_def lookup_put new_file_def split: option.splits if_splits)

lemma writeFile_frame: "writeFile pf p bs w = (r, w1) \<Longrightarrow> q \<noteq> p \<Longrightarrow> lookup w1 q = lookup w q"
  by (auto simp: writeFile_def lookup_put split: option.splits if_splits)

lemma writeFile_ok: "writeFile pf p bs w = (Inr u, w1) \<Longrightarrow> map_option bytes (lookup w1 p) = Some bs"
  by (auto simp: writeFile_def lookup_put new_file_def split: option.splits if_splits)

lemma unlink_fail: "unlink pf p w = (Inl e, w1) \<Longrightarrow> lookup w1 q = lookup w q"
  by (auto simp: unlink_def split: option.splits if_splits)

lemma unlink_ok:
  "unlink pf p w = (Inr u, w1) \<Longrightarrow> lookup w1 q = (if q = p then None else lookup w q)"
  by (auto simp: unlink_def lookup_def next_tick_def delete_conv' split: option.splits if_splits)

lemma mkdir_frame: "mkdir pf p w = (r, w1) \<Longrightarrow> lookup w q \<noteq> None \<Longrightarrow> lookup w1 q = lookup w q"
  by (auto simp: mkdir_def lookup_make_dirs_old split: option.splits if_splits)

lemma getTrashDirectory_frame:
  "getTrashDirectory pf w = (r, w1) \<Longrightarrow> lookup w q \<noteq> None \<Longrightarrow> lookup w1 q = lookup w q"
  by (auto simp: getTrashDirectory_def Let_def dest: mkdir_frame split: if_splits prod.splits sum.splits)

lemma getTrashDirectory_path:
  "getTrashDirectory pf w = (Inr t, w1) \<Longrightarrow> t = join (userData pf) (js ''trash'')"
  by (auto simp: getTrashDirectory_def Let_def split: if_splits prod.splits sum.splits)

lemma meta_suffix_no_slash: "slash \<notin> set meta_suffix"
  by (simp add: meta_suffix_def js_def slash_def)

lemma backupFile_keeps_original:
  assumes "backupFile pf p w = (r, w1)" and "lookup w p \<noteq> None"
  shows "lookup w1 p = lookup w p"
proof -
  obtain rt wt where t: "getTrashDirectory pf w = (rt, wt)" by (cases "getTrashDirectory pf w")
  have kt: "lookup wt p = lookup w p" using getTrashDirectory_frame[OF t assms(2)] .
  show ?thesis
  proof (cases rt)
    case (Inl e)
    then show ?thesis using assms(1) t kt by (simp add: backupFile_def)
  next
    case (Inr trashPath)
    define bp where "bp = join trashPath (timestamp pf wt @ js ''_'' @ basename p)"
    have f1: "bp \<noteq> p" using backup_path_fresh[of "[]" trashPath "timestamp pf wt" p] by (simp add: bp_def)
    have f2: "bp @ meta_suffix \<noteq> p"
      using backup_path_fresh[OF meta_suffix_no_slash, of trashPath "timestamp pf wt" p] by (simp add: bp_def)
    obtain rs ws where s: "stat pf p wt = (rs, ws)" by (cases "stat pf p wt")
    have ks: "lookup ws p = lookup w p" using stat_frame[OF s] kt by simp
    show ?thesis
    proof (cases rs)
      case (Inl e)
      then show ?thesis using assms(1) t Inr s ks by (simp add: backupFile_def Let_def)
    next
      case st: (Inr stats)
      obtain rc wc where c: "copyFile pf p bp ws = (rc, wc)" by (cases "copyFile pf p bp ws")
      have kc: "lookup wc p = lookup w p" using copyFile_frame[OF c, of p] f1 ks by simp
      show ?thesis
      proof (cases rc)
        case (Inl e)
        then show ?thesis using assms(1) t Inr s st c kc by (simp add: backupFile_def Let_def bp_def)
      next
        case cp: (Inr u)
        obtain rw ww where wr: "writeFile pf (bp @ meta_suffix)
            (json_stringify pf \<lparr>originalPath = p, meta_size = length (bytes stats),
               created = birthtime stats, modified = mtime stats, backupDate = now pf ws\<rparr>) wc = (rw, ww)"
          by (cases "writeFile pf (bp @ meta_suffix)
            (json_stringify pf \<lparr>originalPath = p, meta_size = length (bytes stats),
               created = birthtime stats, modified = mtime stats, backupDate = now pf ws\<rparr>) wc")
        have kw: "lookup ww p = lookup w p" using writeFile_frame[OF wr, of p] f2 kc by simp
        show ?thesis using assms(1) t Inr s st c cp wr kw
          by (cases rw) (simp_all add: backupFile_def Let_def bp_def)
      qed
    qed
  qed
qed


lemma backupFile_ok:
  assumes "backupFile pf p w = (Inr bp, w1)" and "lookup w p = Some orig"
  shows "\<not> isDirectory orig \<and> bp \<noteq> p \<and> bp @ meta_suffix \<noteq> p
         \<and> map_option bytes (lookup w1 bp) = Some (bytes orig)
         \<and> (\<exists>m. map_option bytes (lookup w1 (bp @ meta_suffix)) = Some (json_stringify pf m)
                  \<and> originalPath m = p \<and> meta_size m = length (bytes orig))"
proof -
  from assms(1) obtain trashPath wt stats ws wc u u' where
    t: "getTrashDirectory pf w = (Inr trashPath, wt)" and
    bp: "bp = join trashPath (timestamp pf wt @ js ''_'' @ basename p)" and
    s: "stat pf p wt = (Inr stats, ws)" and
    c: "copyFile pf p bp ws = (Inr u, wc)" and
    wr: "writeFile pf (bp @ meta_suffix)
           (json_stringify pf \<lparr>originalPath = p, meta_size = length (bytes stats),
              created = birthtime stats, modified = mtime stats, backupDate = now pf ws\<rparr>) wc = (Inr u', w1)"
    by (auto simp: backupFile_def Let_def split: prod.splits sum.splits)
  have f1: "bp \<noteq> p" using backup_path_fresh[of "[]" trashPath "timestamp pf wt" p] by (simp add: bp)
  have f2: "bp @ meta_suffix \<noteq> p"
    using backup_path_fresh[OF meta_suffix_no_slash, of trashPath "timestamp pf wt" p] by (simp add: bp)
  have kt: "lookup wt p = Some orig" using getTrashDirectory_frame[OF t, of p] assms(2) by simp
  have st: "stats = orig" using stat_ok[OF s] kt by simp
  have ks: "lookup ws p = Some orig" using stat_frame[OF s, of p] kt by simp
  from copyFile_ok[OF c] ks have nd: "\<not> isDirectory orig"
    and cb: "map_option bytes (lookup wc bp) = Some (bytes orig)" by auto
  have "meta_suffix \<noteq> []" by (simp add: meta_suffix_def js_def)
  then have "bp \<noteq> bp @ meta_suffix" by simp
  then have b1: "map_option bytes (lookup w1 bp) = Some (bytes orig)"
    using writeFile_frame[OF wr, of bp] cb by simp
  have m1: "map_option bytes (lookup w1 (bp @ meta_suffix)) =
      Some (json_stringify pf \<lparr>originalPath = p, meta_size = length (bytes orig),
              created = birthtime orig, modified = mtime orig, backupDate = now pf ws\<rparr>)"
    using writeFile_ok[OF wr] st by simp
  show ?thesis using nd f1 f2 b1 m1 by (intro conjI exI[of _ "\<lparr>originalPath = p, meta_size = length (bytes orig),
              created = birthtime orig, modified = mtime orig, backupDate = now pf ws\<rparr>"]) simp_all
qed

lemma delete_one_path: "delete_one pf p w = (out, w1) \<Longrightarrow> out_path out = p"
  by (auto simp: delete_one_def split: if_splits prod.splits sum.splits)

lemma delete_one_missing:
  "\<not> existsSync w p \<Longrightarrow>
   delete_one pf p w = (\<lparr>out_path = p, deleted = False, backupPath = None,
                          out_error = Some (js ''File not found''), backupFailed = False\<rparr>, w)"
  by (simp add: delete_one_def)

lemma delete_one_not_deleted:
  assumes "delete_one pf p w = (out, w1)" and "\<not> deleted out"
  shows "lookup w1 p = lookup w p"
proof (cases "existsSync w p")
  case False
  then show ?thesis using assms by (simp add: delete_one_def)
next
  case True
  then have ex: "lookup w p \<noteq> None" by (simp add: existsSync_def)
  obtain rb wb where b: "backupFile pf p w = (rb, wb)" by (cases "backupFile pf p w")
  have kb: "lookup wb p = lookup w p" using backupFile_keeps_original[OF b ex] .
  show ?thesis
  proof (cases rb)
    case (Inl e)
    then show ?thesis using assms True b kb by (simp add: delete_one_def)
  next
    case (Inr bp)
    obtain ru wu where u: "unlink pf p wb = (ru, wu)" by (cases "unlink pf p wb")
    show ?thesis
    proof (cases ru)
      case (Inl e)
      then show ?thesis using assms True b Inr u kb unlink_fail[of pf p wb e wu p]
        by (simp add: delete_one_def)
    next
      case ok: (Inr x)
      then show ?thesis using assms True b Inr u by (auto simp: delete_one_def)
    qed
  qed
qed

lemma delete_one_deleted:
  assumes "delete_one pf p w = (out, w1)" and "deleted out"
  shows "\<exists>bp orig. backupPath out = Some bp \<and> lookup w p = Some orig \<and> \<not> isDirectory orig
           \<and> lookup w1 p = None
           \<and> map_option bytes (lookup w1 bp) = Some (bytes orig)
           \<and> (\<exists>m. map_option bytes (lookup w1 (bp @ meta_suffix)) = Some (json_stringify pf m)
                  \<and> originalPath m = p \<and> meta_size m = length (bytes orig))"
proof -
  from assms obtain bp wb u where ex: "existsSync w p"
    and b: "backupFile pf p w = (Inr bp, wb)"
    and un: "unlink pf p wb = (Inr u, w1)"
    and o: "backupPath out = Some bp"
    by (auto simp: delete_one_def split: if_splits prod.splits sum.splits)
  from ex obtain orig where orig: "lookup w p = Some orig" by (auto simp: existsSync_def)
  note bk = backupFile_ok[OF b orig]
  have r1: "lookup w1 p = None" using unlink_ok[OF un, of p] by simp
  have r2: "lookup w1 bp = lookup wb bp" using unlink_ok[OF un, of bp] bk by simp
  have r3: "lookup w1 (bp @ meta_suffix) = lookup wb (bp @ meta_suffix)"
    using unlink_ok[OF un, of "bp @ meta_suffix"] bk by simp
  show ?thesis using o orig bk r1 r2 r3 by auto
qed

lemma delete_loop_split:
  "delete_loop pf (pre @ p # post) w = (rs, w') \<Longrightarrow>
   \<exists>wb wa out. delete_loop pf pre w = (take (length pre) rs, wb)
      \<and> delete_one pf p wb = (out, wa)
      \<and> delete_loop pf post wa = (drop (Suc (length pre)) rs, w')
      \<and> rs ! length pre = out"
proof (induction pre arbitrary: w rs)
  case Nil
  then show ?case by (auto split: prod.splits)
next
  case (Cons q pre)
  obtain r w1 where q: "delete_one pf q w = (r, w1)" by (cases "delete_one pf q w")
  obtain rs1 where rest: "delete_loop pf (pre @ p # post) w1 = (rs1, w')" and rs: "rs = r # rs1"
    using Cons.prems q by (auto split: prod.splits)
  from Cons.IH[OF rest] show ?case using q rs by auto
qed

lemma delete_loop_length: "delete_loop pf ps w = (rs, w') \<Longrightarrow> length rs = length ps"
  by (induction ps arbitrary: w rs) (auto split: prod.splits)


text \<open>
  C1: for every requested path of a \<^verbatim>\<open>deleteFiles\<close> call (at any place of the list, in the
  state the loop has reached), the path yields exactly one outcome; a path that does not
  exist yields \<open>deleted = False\<close> with the error "File not found" and leaves the file
  system as it is (no backup artifact); the original is changed only when the outcome says
  \<open>deleted\<close>, and then the backup copy holds the original's bytes and the sidecar
  metadata record is in place.
\<close>

theorem deleteFiles_backup_before_remove:
  assumes "deleteFiles pf (Array (pre @ p # post)) w = (res, w')"
  shows "\<exists>wb wa out.
           delete_loop pf pre w = (take (length pre) (del_data res), wb)
         \<and> delete_one pf p wb = (out, wa)
         \<and> delete_loop pf post wa = (drop (Suc (length pre)) (del_data res), w')
         \<and> length (del_data res) = length (pre @ p # post)
         \<and> del_data res ! length pre = out
         \<and> out_path out = p
         \<and> (\<not> existsSync wb p \<longrightarrow>
               out = \<lparr>out_path = p, deleted = False, backupPath = None,
                       out_error = Some (js ''File not found''), backupFailed = False\<rparr>
               \<and> wa = wb)
         \<and> (lookup wa p \<noteq> lookup wb p \<longrightarrow> deleted out)
         \<and> (deleted out \<longrightarrow>
               (\<exists>bp orig. backupPath out = Some bp \<and> lookup wb p = Some orig
                  \<and> \<not> isDirectory orig \<and> lookup wa p = None
                  \<and> map_option bytes (lookup wa bp) = Some (bytes orig)
                  \<and> (\<exists>m. map_option bytes (lookup wa (bp @ meta_suffix)) = Some (json_stringify pf m)
                         \<and> originalPath m = p \<and> meta_size m = length (bytes orig))))"
proof -
  from assms have loop: "delete_loop pf (pre @ p # post) w = (del_data res, w')"
    by (auto simp: deleteFiles_def split: prod.splits)
  from delete_loop_split[OF loop] obtain wb wa out where
    a: "delete_loop pf pre w = (take (length pre) (del_data res), wb)" and
    b: "delete_one pf p wb = (out, wa)" and
    c: "delete_loop pf post wa = (drop (Suc (length pre)) (del_data res), w')" and
    d: "del_data res ! length pre = out" by blast
  have e: "length (del_data res) = length (pre @ p # post)" using delete_loop_length[OF loop] .
  have f: "out_path out = p" using delete_one_path[OF b] .
  have g: "\<not> existsSync wb p \<longrightarrow>
               out = \<lparr>out_path = p, deleted = False, backupPath = None,
                       out_error = Some (js ''File not found''), backupFailed = False\<rparr>
               \<and> wa = wb"
    using b delete_one_missing[of wb p pf] by auto
  have h: "lookup wa p \<noteq> lookup wb p \<longrightarrow> deleted out"
    using delete_one_not_deleted[OF b] by blast
  have i: "deleted out \<longrightarrow>
               (\<exists>bp orig. backupPath out = Some bp \<and> lookup wb p = Some orig
                  \<and> \<not> isDirectory orig \<and> lookup wa p = None
                  \<and> map_option bytes (lookup wa bp) = Some (bytes orig)
                  \<and> (\<exists>m. map_option bytes (lookup wa (bp @ meta_suffix)) = Some (json_stringify pf m)
                         \<and> originalPath m = p \<and> meta_size m = length (bytes orig)))"
    using delete_one_deleted[OF b] by blast
  show ?thesis using a b c d e f g h i by blast
qed

theorem deleteFiles_backup_before_remove_witness:
  "\<exists>res w'. deleteFiles demo_platform (Array ([] @ js ''/d/a.txt'' # [js ''/d/gone''])) demo_world = (res, w')
      \<and> out_path (del_data res ! 0) = js ''/d/a.txt''
      \<and> deleted (del_data res ! 0)
      \<and> lookup w' (js ''/d/a.txt'') = None
      \<and> backupPath (del_data res ! 0) = Some (js ''/u/trash/2023-11-14T22-13-20.000Z_a.txt'')
      \<and> map_option bytes (lookup w' (js ''/u/trash/2023-11-14T22-13-20.000Z_a.txt'')) = Some [104, 105]
      \<and> existsSync w' (js ''/u/trash/2023-11-14T22-13-20.000Z_a.txt.meta.json'')
      \<and> del_data res ! 1 = \<lparr>out_path = js ''/d/gone'', deleted = False, backupPath = None,
                                out_error = Some (js ''File not found''), backupFailed = False\<rparr>
      \<and> del_success res = False"
proof -
  let ?r = "deleteFiles demo_platform (Array ([] @ js ''/d/a.txt'' # [js ''/d/gone''])) demo_world"
  have r: "?r = (fst ?r, snd ?r)" by simp
  from deleteFiles_backup_before_remove[OF r] obtain out where
    "del_data (fst ?r) ! length ([] :: jstring list) = out" and "out_path out = js ''/d/a.txt''"
    by blast
  then have e0: "out_path (del_data (fst ?r) ! 0) = js ''/d/a.txt''" by simp
  have e1: "deleted (del_data (fst ?r) ! 0)" by code_simp
  have e2: "lookup (snd ?r) (js ''/d/a.txt'') = None" by code_simp
  have e3: "backupPath (del_data (fst ?r) ! 0) = Some (js ''/u/trash/2023-11-14T22-13-20.000Z_a.txt'')"
    by code_simp
  have e4: "map_option bytes (lookup (snd ?r) (js ''/u/trash/2023-11-14T22-13-20.000Z_a.txt'')) = Some [104, 105]"
    by code_simp
  have e5: "existsSync (snd ?r) (js ''/u/trash/2023-11-14T22-13-20.000Z_a.txt.meta.json'')"
    by code_simp
  have e6: "del_data (fst ?r) ! 1 = \<lparr>out_path = js ''/d/gone'', deleted = False, backupPath = None,
                                out_error = Some (js ''File not found''), backupFailed = False\<rparr>"
    by code_simp
  have e7: "del_success (fst ?r) = False" by code_simp
  show ?thesis using r e0 e1 e2 e3 e4 e5 e6 e7 by blast
qed


text \<open>
  C10: \<^verbatim>\<open>deleteFiles\<close> with an empty path list, or with an argument that is not an
  array, returns success = false, an empty outcome list and the error message
  "No files provided for deletion"; the file system is not touched.
\<close>

theorem deleteFiles_nothing_to_delete:
  "deleteFiles pf (Array []) w =
     (\<lparr>del_success = False, del_data = [],
       del_error = Some (js ''No files provided for deletion'')\<rparr>, w)
   \<and> deleteFiles pf NotAnArray w =
     (\<lparr>del_success = False, del_data = [],
       del_error = Some (js ''No files provided for deletion'')\<rparr>, w)"
  by (simp add: deleteFiles_def)

section \<open>Scanner: depth accounting\<close>

text \<open>
  C2, evaluated: with \<open>maxDepth = 1\<close> on a root with the subdirectories \<open>a\<close> and \<open>b\<close>
  (both one level below the root), the counter stands at 2 after the root and \<open>a\<close> have
  been read, so the loop stops with \<open>b\<close> still pending and the file in \<open>b\<close> is never
  recorded: the counter counts directories read, not drained levels.
\<close>

theorem scanDirectory_counts_directories_read:
  "map fd_path (fileStats (scanDirectory demo_platform (js ''/r'') None
       (scan_defaults (request (Some 1) None)) [] depth_world)) = [js ''/r/a/x.txt'']
   \<and> currentDepth (scanDirectory demo_platform (js ''/r'') None
       (scan_defaults (request (Some 1) None)) [] depth_world) = 2
   \<and> pendingDirectories (scanDirectory demo_platform (js ''/r'') None
       (scan_defaults (request (Some 1) None)) [] depth_world) = [js ''/r/b'']
   \<and> levels_below (js ''/r'') (js ''/r/b'') = 1"
  by code_simp

section \<open>Scanner: the size limit\<close>

lemmas path_defs = js_def join_def basename_def dirname_def extname_def slash_def dot_def
  startsWith_def system_path_def

lemmas io_defs = readdir_def stat_def children_def lookup_def next_tick_def is_dir_def now_def

lemmas scan_defs = scan_directory_def scan_defaults_def scanDirectory_def scan_dir_def
  scan_entry_def size_excluded_def count_progress_def flush_batch_def report_def
  percentage_of_zero depth_allows_def num_or_def truthy_def analyzeFiles_def MAX_BATCH_SIZE_def

lemmas demo_defs = huge_world_def demo_platform_def demo_dir_def demo_file_def request_def

lemma size_limit_zero_disables:
  "ignoreSizeAbove config = Some 0 \<Longrightarrow> size_excluded config sz = False"
  by (simp add: size_excluded_def)

lemma countFiles_huge_world:
  "countFiles demo_platform (js ''/v'') 10 0 huge_world = (1, next_tick huge_world)"
  apply (subst countFiles.simps)
  apply (simp add: demo_defs path_defs io_defs countEntries.simps Let_def)
  done

text \<open>
  C6, evaluated: a request with \<open>ignoreSizeAbove = 0\<close> reaches \<^verbatim>\<open>scanDirectory\<close> as a
  limit of 1024 MB (\<^verbatim>\<open>0 || 1024\<close>), so the scan of a directory holding one file of
  2 GiB returns nothing; \<^verbatim>\<open>scanDirectory\<close> itself, given the limit 0, records the file.
\<close>

theorem scan_directory_zero_limit_excludes:
  "ignoreSizeAbove (scan_defaults (request None (Some 0))) = Some 1073741824
   \<and> sr_data (fst (scan_directory demo_platform (js ''/v'') (request None (Some 0)) huge_world)) = []
   \<and> map fd_path (fileStats (scanDirectory demo_platform (js ''/v'') None
        ((scan_defaults (request None None))\<lparr>ignoreSizeAbove := Some 0\<rparr>) [] huge_world))
      = [js ''/v/disk.img'']"
proof (intro conjI)
  show "ignoreSizeAbove (scan_defaults (request None (Some 0))) = Some 1073741824"
    by (simp add: scan_defaults_def request_def num_or_def)
  show "sr_data (fst (scan_directory demo_platform (js ''/v'') (request None (Some 0)) huge_world)) = []"
    apply (simp add: scan_defs request_def countFiles_huge_world)
    apply (subst scan_loop.simps)
    apply (simp add: demo_defs path_defs io_defs scan_defs Let_def)
    apply (subst scan_loop.simps)
    apply (simp add: demo_defs path_defs io_defs scan_defs Let_def)
    done
  show "map fd_path (fileStats (scanDirectory demo_platform (js ''/v'') None
        ((scan_defaults (request None None))\<lparr>ignoreSizeAbove := Some 0\<rparr>) [] huge_world))
      = [js ''/v/disk.img'']"
    apply (simp add: scan_defs request_def)
    apply (subst scan_loop.simps)
    apply (simp add: demo_defs path_defs io_defs scan_defs Let_def)
    apply (subst scan_loop.simps)
    apply (simp add: demo_defs path_defs io_defs scan_defs Let_def)
    done
qed

section \<open>Classifier: what the categories depend on\<close>

lemma classify_other_tags:
  "filter (\<lambda>c. c \<noteq> LargeUnused) (classify config t f) =
     (if extension f \<in> set tempExtensions then [Temporary] else [])
   @ (if extension f \<in> set downloadExtensions then [Installer] else [])
   @ (if matches_copy_pattern (fd_name f) then [PotentialDuplicate] else [])"
  by (simp add: classify_def Let_def)

lemmas classify_demo_defs = analyzeFile_def classify_def daysSinceAccessed_def scan_defaults_def
  request_def num_or_def old_big_file_def days_def tempExtensions_def downloadExtensions_def
  matches_copy_pattern_def includes_ci_def kopiya_def canonicalize_def is_digit_def js_def

text \<open>
  C8 as stated fails: the classifier reads the clock. The same record with the same
  thresholds is not reclaimable 100 days after its last access and is tagged
  \<open>LargeUnused\<close> 400 days after it.
\<close>

theorem classify_depends_on_clock:
  "classify (scan_defaults (request None None)) (days 100) old_big_file = []
   \<and> classify (scan_defaults (request None None)) (days 400) old_big_file = [LargeUnused]
   \<and> isUnneeded (analyzeFile demo_platform (scan_defaults (request None None)) (days 100) old_big_file)
      \<noteq> isUnneeded (analyzeFile demo_platform (scan_defaults (request None None)) (days 400) old_big_file)"
  by (simp add: classify_demo_defs)

text \<open>
  C8, amended: the categories and the reclaimable flag are a function of the record,
  the thresholds and the time the call reads. The tags other than \<open>LargeUnused\<close> are the
  same at any two times, and all categories and the flag are the same at two times at
  which the record's age in whole days is the same.
\<close>

theorem classify_deterministic_up_to_age:
  "filter (\<lambda>c. c \<noteq> LargeUnused) (classify config t1 f)
     = filter (\<lambda>c. c \<noteq> LargeUnused) (classify config t2 f)
   \<and> (daysSinceAccessed t1 f = daysSinceAccessed t2 f \<longrightarrow>
        categories (analyzeFile pf config t1 f) = categories (analyzeFile pf config t2 f)
        \<and> isUnneeded (analyzeFile pf config t1 f) = isUnneeded (analyzeFile pf config t2 f))"
  by (simp add: classify_other_tags) (simp add: analyzeFile_def classify_def Let_def)

theorem classify_deterministic_up_to_age_witness:
  "daysSinceAccessed (days 400) old_big_file = daysSinceAccessed (days 400 + 5000) old_big_file
   \<and> categories (analyzeFile demo_platform (scan_defaults (request None None)) (days 400) old_big_file)
      = categories (analyzeFile demo_platform (scan_defaults (request None None)) (days 400 + 5000) old_big_file)
   \<and> categories (analyzeFile demo_platform (scan_defaults (request None None)) (days 400) old_big_file)
      = [LargeUnused]"
proof -
  have a: "daysSinceAccessed (days 400) old_big_file = daysSinceAccessed (days 400 + 5000) old_big_file"
    by (simp add: classify_demo_defs)
  have b: "categories (analyzeFile demo_platform (scan_defaults (request None None)) (days 400) old_big_file)
      = [LargeUnused]"
    by (simp add: classify_demo_defs)
  from classify_deterministic_up_to_age[of "scan_defaults (request None None)" "days 400" old_big_file
      "days 400 + 5000" demo_platform] a b
  show ?thesis by simp
qed

section \<open>Scanner: no record from below the depth limit\<close>

lemma components_acc_no_slash:
  "slash \<notin> set n \<Longrightarrow> components_acc cur n = (if cur = [] \<and> n = [] then [] else [rev cur @ n])"
  by (induction n arbitrary: cur) auto

lemma components_acc_append_slash:
  "components_acc cur (xs @ slash # ys) = components_acc cur xs @ components_acc [] ys"
  by (induction xs arbitrary: cur) auto

lemma components_join:
  assumes "n \<noteq> []" and "slash \<notin> set n"
  shows "components (join d n) = components d @ [n]"
proof (cases "d \<noteq> [] \<and> last d = slash")
  case True
  then have d: "d = butlast d @ [slash]" by (metis append_butlast_last_id)
  have "join d n = butlast d @ slash # n" using True d by (simp add: join_def)
  then have "components (join d n) = components_acc [] (butlast d) @ components_acc [] n"
    by (simp add: components_def components_acc_append_slash)
  moreover have "components d = components_acc [] (butlast d)"
    using components_acc_append_slash[of "[]" "butlast d" "[]"] d by (simp add: components_def)
  ultimately show ?thesis using assms by (simp add: components_acc_no_slash)
next
  case False
  then have "join d n = d @ slash # n" by (auto simp: join_def)
  then show ?thesis using assms
    by (simp add: components_def components_acc_append_slash components_acc_no_slash)
qed

lemma levels_below_join:
  "n \<noteq> [] \<Longrightarrow> slash \<notin> set n \<Longrightarrow> levels_below r (join d n) = levels_below r d + 1"
  by (simp add: levels_below_def components_join)

lemma readdir_names:
  assumes "readdir pf p w = (Inr ns, w1)" and "n \<in> set ns"
  shows "n \<noteq> [] \<and> slash \<notin> set n"
proof -
  from assms(1) have "ns = children w p"
    by (auto simp: readdir_def split: option.splits if_splits)
  with assms(2) show ?thesis by (auto simp: children_def basename_no_slash)
qed

lemma depth_inv_mono: "depth_inv r M k st \<Longrightarrow> k \<le> k' \<Longrightarrow> depth_inv r M k' st"
  by (auto simp: depth_inv_def list_all_iff)

lemma depth_inv_count_progress: "depth_inv r M k st \<Longrightarrow> depth_inv r M k (count_progress pf st)"
  by (auto simp: depth_inv_def count_progress_def Let_def report_def batch_ok_def split: option.splits)

lemma depth_inv_flush_batch: "depth_inv r M k st \<Longrightarrow> depth_inv r M k (flush_batch pf config st)"
  by (auto simp: depth_inv_def flush_batch_def Let_def batch_ok_def analyzeFiles_def analyzeFile_def
      list_all_iff)

lemma depth_inv_scan_entry:
  assumes "depth_inv r M (c + 1) st" and "levels_below r d \<le> c" and "c \<le> M"
    and "n \<noteq> []" and "slash \<notin> set n"
  shows "depth_inv r M (c + 1) (scan_entry pf config d n st)"
proof -
  have lv: "levels_below r (join d n) \<le> c + 1" "levels_below r (join d n) \<le> M + 1"
    using assms(2-5) by (simp_all add: levels_below_join)
  have k: "\<And>w. depth_inv r M (c + 1) (st\<lparr>st_world := w\<rparr>)"
    "\<And>w. depth_inv r M (c + 1) (st\<lparr>st_world := w, pendingDirectories := pendingDirectories st @ [join d n]\<rparr>)"
    "\<And>w f. fd_path f = join d n \<Longrightarrow> depth_inv r M (c + 1) (st\<lparr>st_world := w, fileStats := fileStats st @ [f]\<rparr>)"
    using assms(1) lv by (simp_all add: depth_inv_def)
  show ?thesis
    unfolding scan_entry_def Let_def
    using assms(1) k
    by (auto split: prod.splits sum.splits intro!: depth_inv_flush_batch depth_inv_count_progress)
qed

lemma depth_inv_scan_entries:
  assumes "depth_inv r M (c + 1) st" and "levels_below r d \<le> c" and "c \<le> M"
    and "\<forall>n \<in> set ns. n \<noteq> [] \<and> slash \<notin> set n"
  shows "depth_inv r M (c + 1) (scan_entries pf config d ns st)"
  using assms
proof (induction ns arbitrary: st)
  case Nil
  then show ?case by simp
next
  case (Cons n ns)
  have "depth_inv r M (c + 1) (scan_entry pf config d n st)"
    using Cons.prems by (intro depth_inv_scan_entry) auto
  then show ?case using Cons.prems by (simp add: Cons.IH)
qed

lemma depth_inv_scan_dir:
  assumes "depth_inv r M (c + 1) st" and "levels_below r d \<le> c" and "c \<le> M"
  shows "depth_inv r M (c + 1) (scan_dir pf config d st)"
proof -
  obtain res w1 where rd: "readdir pf d (st_world st) = (res, w1)"
    by (cases "readdir pf d (st_world st)")
  have w: "depth_inv r M (c + 1) (st\<lparr>st_world := w1\<rparr>)" using assms(1) by (simp add: depth_inv_def)
  show ?thesis
  proof (cases res)
    case (Inl e)
    then show ?thesis using rd w by (simp add: scan_dir_def)
  next
    case (Inr ns)
    have "\<forall>n \<in> set ns. n \<noteq> [] \<and> slash \<notin> set n" using readdir_names rd Inr by blast
    then have "depth_inv r M (c + 1) (scan_entries pf config d ns (st\<lparr>st_world := w1\<rparr>))"
      using w assms(2,3) by (intro depth_inv_scan_entries) auto
    then show ?thesis using rd Inr by (simp add: scan_dir_def)
  qed
qed

lemma depth_inv_scan_loop:
  assumes "maxDepth config = Some M" and "depth_inv r M (currentDepth st) st"
  shows "depth_inv r M (currentDepth (scan_loop pf config st)) (scan_loop pf config st)"
  using assms
proof (induction pf config st rule: scan_loop.induct)
  case (1 pf config st)
  show ?case
  proof (cases "pendingDirectories st")
    case Nil
    then show ?thesis using "1.prems" by (subst (1 2) scan_loop.simps) simp
  next
    case (Cons currentDir rest)
    show ?thesis
    proof (cases "depth_allows config (currentDepth st)")
      case False
      then show ?thesis using "1.prems" Cons by (subst (1 2) scan_loop.simps) simp
    next
      case True
      then have cM: "currentDepth st \<le> M" using "1.prems"(1) by (simp add: depth_allows_def)
      have lvd: "levels_below r currentDir \<le> currentDepth st"
        using "1.prems"(2) Cons by (simp add: depth_inv_def)
      show ?thesis
      proof (cases "currentDir \<in> visitedDirs st")
        case v: True
        have "depth_inv r M (currentDepth (st\<lparr>pendingDirectories := rest\<rparr>)) (st\<lparr>pendingDirectories := rest\<rparr>)"
          using "1.prems"(2) Cons by (simp add: depth_inv_def)
        from "1.IH"(1)[OF Cons _ v "1.prems"(1) this] True
        show ?thesis using Cons v by (subst (1 2) scan_loop.simps) simp
      next
        case v: False
        let ?st0 = "st\<lparr>pendingDirectories := rest, visitedDirs := insert currentDir (visitedDirs st)\<rparr>"
        let ?st1 = "scan_dir pf config currentDir ?st0"
        have "depth_inv r M (currentDepth st) ?st0"
          using "1.prems"(2) Cons by (simp add: depth_inv_def)
        then have "depth_inv r M (currentDepth st + 1) ?st0" by (rule depth_inv_mono) simp
        then have "depth_inv r M (currentDepth st + 1) ?st1"
          using lvd cM by (rule depth_inv_scan_dir)
        then have "depth_inv r M (currentDepth (?st1\<lparr>currentDepth := currentDepth ?st1 + 1\<rparr>))
            (?st1\<lparr>currentDepth := currentDepth ?st1 + 1\<rparr>)"
          by (simp add: depth_inv_def currentDepth_scan_dir)
        from "1.IH"(2)[OF Cons _ v refl "1.prems"(1) this] True
        show ?thesis using Cons v by (subst (1 2) scan_loop.simps) (simp add: Let_def)
      qed
    qed
  qed
qed

lemma levels_below_self: "levels_below r r = 0"
  by (simp add: levels_below_def)

text \<open>
  The first half of C2 holds on the code: with \<open>maxDepth = M\<close>, every record that
  \<^verbatim>\<open>scanDirectory\<close> returns or sends in a batch has a path at most \<open>M + 1\<close> levels below
  the scan root, that is, its directory lies at most \<open>M\<close> levels below the root.
\<close>

lemma scanDirectory_depth_bound:
  assumes "maxDepth config = Some M" and "list_all (batch_ok rootPath M) evs"
  shows "list_all (\<lambda>f. levels_below rootPath (fd_path f) \<le> M + 1)
           (fileStats (scanDirectory pf rootPath reporter config evs w))
       \<and> list_all (batch_ok rootPath M) (sent (scanDirectory pf rootPath reporter config evs w))"
proof -
  let ?st0 = "\<lparr>st_world = w, pendingDirectories = [rootPath], fileStats = [], batchCount = 0,
        currentDepth = 0, visitedDirs = {}, progressReporter = reporter, sent = evs\<rparr>"
  have "depth_inv rootPath M (currentDepth ?st0) ?st0"
    using assms(2) by (simp add: depth_inv_def levels_below_self)
  from depth_inv_scan_loop[OF assms(1) this, of pf]
  show ?thesis by (simp add: scanDirectory_def depth_inv_def)
qed

lemma batch_ok_report:
  "list_all (batch_ok r M) (report pf rep evs) = list_all (batch_ok r M) evs"
  by (simp add: report_def batch_ok_def)

lemma scan_directory_depth_bound:
  "list_all (\<lambda>a. levels_below directoryPath (fd_path (af_file a)) \<le> num_or (maxDepth scanConfig) 10 + 1)
     (sr_data (fst (scan_directory pf directoryPath scanConfig w)))
   \<and> list_all (batch_ok directoryPath (num_or (maxDepth scanConfig) 10))
       (sr_sent (fst (scan_directory pf directoryPath scanConfig w)))"
proof -
  let ?M = "num_or (maxDepth scanConfig) 10"
  obtain T w1 where c: "countFiles pf directoryPath ?M 0 w = (T, w1)"
    by (cases "countFiles pf directoryPath ?M 0 w")
  let ?r0 = "\<lparr>totalFiles = T, processedFiles = 0\<rparr>"
  let ?st = "scanDirectory pf directoryPath (Some ?r0) (scan_defaults scanConfig) (report pf ?r0 []) w1"
  have m: "maxDepth (scan_defaults scanConfig) = Some ?M" by (simp add: scan_defaults_def)
  have e: "list_all (batch_ok directoryPath ?M) (report pf ?r0 [])"
    by (simp add: batch_ok_report)
  note b = scanDirectory_depth_bound[OF m e, of pf "Some ?r0" w1]
  have d: "list_all (\<lambda>a. levels_below directoryPath (fd_path (af_file a)) \<le> ?M + 1)
      (analyzeFiles pf (st_world ?st) (fileStats ?st) (scan_defaults scanConfig))"
    using b by (simp add: analyzeFiles_def analyzeFile_def list_all_iff)
  have f: "batch_ok directoryPath ?M
      (ScanBatch (analyzeFiles pf (st_world ?st) (fileStats ?st) (scan_defaults scanConfig)) True)"
    using d by (simp add: batch_ok_def)
  show ?thesis using c b d f
    by (simp add: scan_directory_def Let_def batch_ok_report)
qed


section \<open>Scanner: progress reports\<close>

lemma procs_append [simp]: "procs (xs @ ys) = procs xs @ procs ys"
  by (simp add: procs_def)

lemma procs_simps [simp]:
  "procs [] = []"
  "procs (ScanProgress p t pc # es) = p # procs es"
  "procs (ScanBatch fs d # es) = procs es"
  by (simp_all add: procs_def is_progress_def)

lemma percentages_wf:
  "list_all (wf_event T) evs \<Longrightarrow> percentages evs = map (\<lambda>p. percentage_of p T) (procs evs)"
  by (induction evs)
     (auto simp: percentages_def procs_def wf_event_def is_progress_def split: ipc_event.splits)

lemma progress_inv_iff:
  "progress_inv T st \<longleftrightarrow>
     (\<exists>r. progressReporter st = Some r \<and> totalFiles r = T \<and> 0 \<le> processedFiles r
          \<and> list_all (wf_event T) (sent st) \<and> sorted (procs (sent st))
          \<and> list_all (\<lambda>p. 0 \<le> p \<and> p \<le> processedFiles r) (procs (sent st)))"
  by (auto simp: progress_inv_def split: option.splits)

lemma report_shape:
  "report pf r evs = (if mainWindow pf
      then evs @ [ScanProgress (processedFiles r) (totalFiles r)
                    (percentage_of (processedFiles r) (totalFiles r))] else evs)"
  by (simp add: report_def)

lemma progress_inv_count_progress:
  assumes "progress_inv T st"
  shows "progress_inv T (count_progress pf st)"
proof -
  from assms obtain r where r: "progressReporter st = Some r" and t: "totalFiles r = T"
    and n: "0 \<le> processedFiles r" and wf: "list_all (wf_event T) (sent st)"
    and so: "sorted (procs (sent st))"
    and bd: "list_all (\<lambda>p. 0 \<le> p \<and> p \<le> processedFiles r) (procs (sent st))"
    by (auto simp: progress_inv_iff split: option.splits)
  have bd': "list_all (\<lambda>p. 0 \<le> p \<and> p \<le> processedFiles r + 1) (procs (sent st))"
    using bd by (induction "procs (sent st)") (auto simp: list_all_iff)
  have so': "sorted (procs (sent st) @ [processedFiles r + 1])"
    using so bd by (auto simp: sorted_append list_all_iff)
  show ?thesis
    using r t n wf so bd' so'
    by (auto simp: progress_inv_iff count_progress_def Let_def report_shape wf_event_def)
qed

lemma progress_inv_flush_batch:
  "progress_inv T st \<Longrightarrow> progress_inv T (flush_batch pf config st)"
  by (auto simp: progress_inv_iff flush_batch_def Let_def wf_event_def split: option.splits)

lemma progress_inv_cong:
  "progressReporter st' = progressReporter st \<Longrightarrow> sent st' = sent st \<Longrightarrow>
   progress_inv T st \<Longrightarrow> progress_inv T st'"
  by (simp add: progress_inv_iff)

lemma progress_inv_scan_entry:
  assumes "progress_inv T st"
  shows "progress_inv T (scan_entry pf config d n st)"
proof -
  have k: "\<And>w ps fs. progress_inv T (st\<lparr>st_world := w, pendingDirectories := ps\<rparr>)"
    "\<And>w. progress_inv T (st\<lparr>st_world := w\<rparr>)"
    "\<And>w fs. progress_inv T (st\<lparr>st_world := w, fileStats := fs\<rparr>)"
    using assms by (simp_all add: progress_inv_iff)
  show ?thesis
    unfolding scan_entry_def Let_def
    using assms k
    by (auto split: prod.splits sum.splits intro!: progress_inv_flush_batch progress_inv_count_progress)
qed

lemma progress_inv_scan_entries:
  "progress_inv T st \<Longrightarrow> progress_inv T (scan_entries pf config d ns st)"
  by (induction ns arbitrary: st) (simp_all add: progress_inv_scan_entry)

lemma progress_inv_scan_dir:
  assumes "progress_inv T st"
  shows "progress_inv T (scan_dir pf config d st)"
proof -
  have "\<And>w. progress_inv T (st\<lparr>st_world := w\<rparr>)" using assms by (simp add: progress_inv_iff)
  then show ?thesis
    unfolding scan_dir_def by (auto split: prod.splits sum.splits intro!: progress_inv_scan_entries)
qed

lemma progress_inv_scan_loop:
  "progress_inv T st \<Longrightarrow> progress_inv T (scan_loop pf config st)"
proof (induction pf config st rule: scan_loop.induct)
  case (1 pf config st)
  show ?case
  proof (cases "pendingDirectories st")
    case Nil
    then show ?thesis using "1.prems" by (subst scan_loop.simps) simp
  next
    case (Cons currentDir rest)
    show ?thesis
    proof (cases "depth_allows config (currentDepth st)")
      case False
      then show ?thesis using "1.prems" Cons by (subst scan_loop.simps) simp
    next
      case True
      show ?thesis
      proof (cases "currentDir \<in> visitedDirs st")
        case v: True
        have "progress_inv T (st\<lparr>pendingDirectories := rest\<rparr>)"
          using "1.prems" by (simp add: progress_inv_iff)
        from "1.IH"(1)[OF Cons _ v this] True
        show ?thesis using Cons v by (subst scan_loop.simps) simp
      next
        case v: False
        let ?st1 = "scan_dir pf config currentDir
                      (st\<lparr>pendingDirectories := rest, visitedDirs := insert currentDir (visitedDirs st)\<rparr>)"
        have "progress_inv T (st\<lparr>pendingDirectories := rest, visitedDirs := insert currentDir (visitedDirs st)\<rparr>)"
          using "1.prems" by (simp add: progress_inv_iff)
        then have "progress_inv T ?st1" by (rule progress_inv_scan_dir)
        then have "progress_inv T (?st1\<lparr>currentDepth := currentDepth ?st1 + 1\<rparr>)"
          by (simp add: progress_inv_iff)
        from "1.IH"(2)[OF Cons _ v refl this] True
        show ?thesis using Cons v by (subst scan_loop.simps) (simp add: Let_def)
      qed
    qed
  qed
qed


lemma percentages_append [simp]: "percentages (xs @ ys) = percentages xs @ percentages ys"
  by (simp add: percentages_def)

lemma percentages_simps [simp]:
  "percentages [] = []"
  "percentages (ScanProgress p t pc # es) = pc # percentages es"
  "percentages (ScanBatch fs d # es) = percentages es"
  by (simp_all add: percentages_def is_progress_def)

lemma sorted_map_percentage:
  "sorted xs \<Longrightarrow> list_all (\<lambda>p. 0 \<le> p) xs \<Longrightarrow> sorted (map (\<lambda>p. percentage_of p T) xs)"
  by (induction xs) (auto intro: percentage_of_mono)

lemma progress_inv_scanDirectory:
  "progress_inv T (scanDirectory pf directoryPath (Some \<lparr>totalFiles = T, processedFiles = 0\<rparr>) config
      (report pf \<lparr>totalFiles = T, processedFiles = 0\<rparr> []) w)"
  unfolding scanDirectory_def
  by (rule progress_inv_scan_loop) (simp add: progress_inv_iff report_shape wf_event_def)

lemma scan_directory_unfold:
  assumes "mainWindow pf"
    and "countFiles pf directoryPath (num_or (maxDepth scanConfig) 10) 0 w = (T, w1)"
    and "progressReporter (scanDirectory pf directoryPath (Some \<lparr>totalFiles = T, processedFiles = 0\<rparr>)
           (scan_defaults scanConfig) (report pf \<lparr>totalFiles = T, processedFiles = 0\<rparr> []) w1) = Some r"
  shows "percentages (sr_sent (fst (scan_directory pf directoryPath scanConfig w)))
           = percentages (sent (scanDirectory pf directoryPath (Some \<lparr>totalFiles = T, processedFiles = 0\<rparr>)
               (scan_defaults scanConfig) (report pf \<lparr>totalFiles = T, processedFiles = 0\<rparr> []) w1))
             @ [percentage_of (totalFiles r) (totalFiles r)]
         \<and> sr_total (fst (scan_directory pf directoryPath scanConfig w)) = T
         \<and> sr_processed (fst (scan_directory pf directoryPath scanConfig w)) = processedFiles r"
  using assms by (simp add: scan_directory_def Let_def report_shape)

lemma scan_directory_final_unfold:
  assumes "mainWindow pf"
    and "countFiles pf directoryPath (num_or (maxDepth scanConfig) 10) 0 w = (T, w1)"
    and "progressReporter (scanDirectory pf directoryPath (Some \<lparr>totalFiles = T, processedFiles = 0\<rparr>)
           (scan_defaults scanConfig) (report pf \<lparr>totalFiles = T, processedFiles = 0\<rparr> []) w1) = Some r"
  shows "filter is_progress (sr_sent (fst (scan_directory pf directoryPath scanConfig w)))
           = filter is_progress (sent (scanDirectory pf directoryPath
               (Some \<lparr>totalFiles = T, processedFiles = 0\<rparr>)
               (scan_defaults scanConfig) (report pf \<lparr>totalFiles = T, processedFiles = 0\<rparr> []) w1))
             @ [ScanProgress (totalFiles r) (totalFiles r) (percentage_of (totalFiles r) (totalFiles r))]"
  using assms by (simp add: scan_directory_def Let_def report_shape is_progress_def)

lemma scan_directory_final:
  assumes "mainWindow pf"
  shows "\<exists>es pc. filter is_progress (sr_sent (fst (scan_directory pf directoryPath scanConfig w)))
           = es @ [ScanProgress (sr_total (fst (scan_directory pf directoryPath scanConfig w)))
                     (sr_total (fst (scan_directory pf directoryPath scanConfig w))) pc]"
proof -
  obtain T w1 where c: "countFiles pf directoryPath (num_or (maxDepth scanConfig) 10) 0 w = (T, w1)"
    by (cases "countFiles pf directoryPath (num_or (maxDepth scanConfig) 10) 0 w")
  let ?st = "scanDirectory pf directoryPath (Some \<lparr>totalFiles = T, processedFiles = 0\<rparr>)
      (scan_defaults scanConfig) (report pf \<lparr>totalFiles = T, processedFiles = 0\<rparr> []) w1"
  have "progress_inv T ?st" by (rule progress_inv_scanDirectory)
  then obtain r where r: "progressReporter ?st = Some r" and t: "totalFiles r = T"
    by (auto simp: progress_inv_iff)
  show ?thesis
    using scan_directory_final_unfold[OF assms c r] scan_directory_unfold[OF assms c r] t
    by simp
qed

lemma scan_directory_sent:
  assumes "mainWindow pf"
  shows "\<exists>ps. percentages (sr_sent (fst (scan_directory pf directoryPath scanConfig w)))
             = map (\<lambda>p. percentage_of p (sr_total (fst (scan_directory pf directoryPath scanConfig w)))) ps
               @ [percentage_of (sr_total (fst (scan_directory pf directoryPath scanConfig w)))
                    (sr_total (fst (scan_directory pf directoryPath scanConfig w)))]
           \<and> sorted ps
           \<and> list_all (\<lambda>p. 0 \<le> p
                  \<and> p \<le> sr_processed (fst (scan_directory pf directoryPath scanConfig w))) ps"
proof -
  obtain T w1 where c: "countFiles pf directoryPath (num_or (maxDepth scanConfig) 10) 0 w = (T, w1)"
    by (cases "countFiles pf directoryPath (num_or (maxDepth scanConfig) 10) 0 w")
  let ?st = "scanDirectory pf directoryPath (Some \<lparr>totalFiles = T, processedFiles = 0\<rparr>)
      (scan_defaults scanConfig) (report pf \<lparr>totalFiles = T, processedFiles = 0\<rparr> []) w1"
  have "progress_inv T ?st" by (rule progress_inv_scanDirectory)
  then obtain r where r: "progressReporter ?st = Some r" and t: "totalFiles r = T"
    and wf: "list_all (wf_event T) (sent ?st)" and so: "sorted (procs (sent ?st))"
    and bd: "list_all (\<lambda>p. 0 \<le> p \<and> p \<le> processedFiles r) (procs (sent ?st))"
    by (auto simp: progress_inv_iff)
  note u = scan_directory_unfold[OF assms c r]
  have "percentages (sr_sent (fst (scan_directory pf directoryPath scanConfig w)))
      = map (\<lambda>p. percentage_of p T) (procs (sent ?st)) @ [percentage_of T T]"
    using u t percentages_wf[OF wf] by simp
  then show ?thesis using u so bd by (intro exI[of _ "procs (sent ?st)"]) simp
qed

text \<open>
  C5 as stated fails twice. A scan of fifteen files the pre-pass counted as five reports
  0, then 200, then 100: a percentage above 100, and a decrease. A scan of an empty
  directory ends with the report 0, as the estimate is 0, where the handler announces
  its final report as \<^verbatim>\<open>(100%)\<close>.
\<close>

theorem scan_progress_not_monotone:
  "percentages (sr_sent (fst (scan_directory demo_platform (js ''/p'') (request None None) progress_world)))
     = [0, 200, 100]
   \<and> percentages (sr_sent (fst (scan_directory demo_platform (js ''/e'') (request None None) empty_world)))
     = [0, 0]"
proof
  have m: "mainWindow demo_platform" by (simp add: demo_platform_def)
  have d: "num_or (maxDepth (request None None)) 10 = 10" by (simp add: num_or_def request_def)
  have c: "countFiles demo_platform (js ''/p'') 10 0 progress_world = (5, next_tick progress_world)"
    by code_simp
  have r: "progressReporter (scanDirectory demo_platform (js ''/p'')
       (Some \<lparr>totalFiles = 5, processedFiles = 0\<rparr>) (scan_defaults (request None None))
       (report demo_platform \<lparr>totalFiles = 5, processedFiles = 0\<rparr> []) (next_tick progress_world))
     = Some \<lparr>totalFiles = 5, processedFiles = 15\<rparr>"
    by code_simp
  have s: "percentages (sent (scanDirectory demo_platform (js ''/p'')
       (Some \<lparr>totalFiles = 5, processedFiles = 0\<rparr>) (scan_defaults (request None None))
       (report demo_platform \<lparr>totalFiles = 5, processedFiles = 0\<rparr> []) (next_tick progress_world)))
     = [0, 200]"
    by code_simp
  from scan_directory_unfold[OF m, of "js ''/p''" "request None None" progress_world 5
      "next_tick progress_world" "\<lparr>totalFiles = 5, processedFiles = 15\<rparr>"] c r s d
  show "percentages (sr_sent (fst (scan_directory demo_platform (js ''/p'') (request None None) progress_world)))
     = [0, 200, 100]"
    by (simp add: percentage_of_full)
  show "percentages (sr_sent (fst (scan_directory demo_platform (js ''/e'') (request None None) empty_world)))
     = [0, 0]"
    by code_simp
qed

text \<open>
  C5, amended: in a scan with a main window, every reported percentage is at least 0,
  the reports before the final one are non-decreasing, and the final report carries
  the estimate of the pre-pass both as its total and as its count of processed files;
  its percentage is exactly 100 whenever that estimate is positive. When the scan
  counts no more files than the estimate, every percentage lies between 0 and 100 and
  the whole sequence, the final report included, is non-decreasing.
\<close>

theorem scan_progress_reports:
  assumes "mainWindow pf"
  shows "percentages (sr_sent (fst (scan_directory pf directoryPath scanConfig w))) \<noteq> []
    \<and> ev_processed (last (filter is_progress (sr_sent (fst (scan_directory pf directoryPath scanConfig w)))))
        = sr_total (fst (scan_directory pf directoryPath scanConfig w))
    \<and> ev_total (last (filter is_progress (sr_sent (fst (scan_directory pf directoryPath scanConfig w)))))
        = sr_total (fst (scan_directory pf directoryPath scanConfig w))
    \<and> (0 < sr_total (fst (scan_directory pf directoryPath scanConfig w)) \<longrightarrow>
        last (percentages (sr_sent (fst (scan_directory pf directoryPath scanConfig w)))) = 100)
    \<and> list_all (\<lambda>x. 0 \<le> x) (percentages (sr_sent (fst (scan_directory pf directoryPath scanConfig w))))
    \<and> sorted (butlast (percentages (sr_sent (fst (scan_directory pf directoryPath scanConfig w)))))
    \<and> (sr_processed (fst (scan_directory pf directoryPath scanConfig w))
          \<le> sr_total (fst (scan_directory pf directoryPath scanConfig w)) \<longrightarrow>
        sorted (percentages (sr_sent (fst (scan_directory pf directoryPath scanConfig w))))
        \<and> list_all (\<lambda>x. x \<le> 100)
             (percentages (sr_sent (fst (scan_directory pf directoryPath scanConfig w)))))"
proof -
  let ?res = "fst (scan_directory pf directoryPath scanConfig w)"
  let ?T = "sr_total ?res"
  from scan_directory_sent[OF assms, of directoryPath scanConfig w]
  obtain ps where ps: "percentages (sr_sent ?res)
        = map (\<lambda>p. percentage_of p ?T) ps @ [percentage_of ?T ?T]"
    and so: "sorted ps"
    and bd: "list_all (\<lambda>p. 0 \<le> p \<and> p \<le> sr_processed ?res) ps"
    by blast
  have nn: "list_all (\<lambda>p. 0 \<le> p) ps" using bd by (simp add: list_all_iff)
  have fin: "percentage_of ?T ?T = (if 0 < ?T then 100 else 0)"
    by (simp add: percentage_of_full percentage_of_zero_total)
  have a: "percentages (sr_sent ?res) \<noteq> []" using ps by simp
  have b: "ev_processed (last (filter is_progress (sr_sent ?res))) = ?T
      \<and> ev_total (last (filter is_progress (sr_sent ?res))) = ?T"
    using scan_directory_final[OF assms, of directoryPath scanConfig w] by auto
  have b': "last (percentages (sr_sent ?res)) = 100" if "0 < ?T"
    using ps fin that by simp
  have c: "list_all (\<lambda>x. 0 \<le> x) (percentages (sr_sent ?res))"
    using ps fin bd by (auto simp: list_all_iff percentage_of_nonneg)
  have d: "sorted (butlast (percentages (sr_sent ?res)))"
    using ps so nn by (simp add: butlast_append sorted_map_percentage)
  have e: "sorted (percentages (sr_sent ?res)) \<and> list_all (\<lambda>x. x \<le> 100) (percentages (sr_sent ?res))"
    if le: "sr_processed ?res \<le> sr_total ?res"
  proof -
    have all: "\<forall>p \<in> set ps. 0 \<le> p \<and> p \<le> ?T" using bd le by (auto simp: list_all_iff)
    have "sorted (map (\<lambda>p. percentage_of p ?T) ps @ [percentage_of ?T ?T])"
      using so nn all by (auto simp: sorted_append sorted_map_percentage intro: percentage_of_mono)
    moreover have "list_all (\<lambda>x. x \<le> 100) (map (\<lambda>p. percentage_of p ?T) ps @ [percentage_of ?T ?T])"
      using all fin by (auto simp: list_all_iff intro: percentage_of_le_100)
    ultimately show ?thesis using ps by simp
  qed
  show ?thesis using a b b' c d e by blast
qed

theorem scan_progress_reports_witness:
  "mainWindow demo_platform
   \<and> percentages (sr_sent (fst (scan_directory demo_platform (js ''/r'') (request None None) depth_world)))
       = [0, 100]
   \<and> sr_processed (fst (scan_directory demo_platform (js ''/r'') (request None None) depth_world)) = 2
   \<and> sr_total (fst (scan_directory demo_platform (js ''/r'') (request None None) depth_world)) = 2
   \<and> sorted (percentages (sr_sent (fst (scan_directory demo_platform (js ''/r'') (request None None) depth_world))))
   \<and> ev_processed (last (filter is_progress
         (sr_sent (fst (scan_directory demo_platform (js ''/r'') (request None None) depth_world))))) = 2
   \<and> ev_total (last (filter is_progress
         (sr_sent (fst (scan_directory demo_platform (js ''/r'') (request None None) depth_world))))) = 2
   \<and> list_all (\<lambda>x. 0 \<le> x \<and> x \<le> 100)
        (percentages (sr_sent (fst (scan_directory demo_platform (js ''/r'') (request None None) depth_world))))"
proof -
  have m: "mainWindow demo_platform" by (simp add: demo_platform_def)
  have d: "num_or (maxDepth (request None None)) 10 = 10" by (simp add: num_or_def request_def)
  have c: "countFiles demo_platform (js ''/r'') 10 0 depth_world = (2, next_tick (next_tick (next_tick depth_world)))"
    by code_simp
  have r: "progressReporter (scanDirectory demo_platform (js ''/r'')
       (Some \<lparr>totalFiles = 2, processedFiles = 0\<rparr>) (scan_defaults (request None None))
       (report demo_platform \<lparr>totalFiles = 2, processedFiles = 0\<rparr> [])
       (next_tick (next_tick (next_tick depth_world))))
     = Some \<lparr>totalFiles = 2, processedFiles = 2\<rparr>"
    by code_simp
  have s: "percentages (sent (scanDirectory demo_platform (js ''/r'')
       (Some \<lparr>totalFiles = 2, processedFiles = 0\<rparr>) (scan_defaults (request None None))
       (report demo_platform \<lparr>totalFiles = 2, processedFiles = 0\<rparr> [])
       (next_tick (next_tick (next_tick depth_world)))))
     = [0]"
    by code_simp
  from scan_directory_unfold[OF m, of "js ''/r''" "request None None" depth_world 2
      "next_tick (next_tick (next_tick depth_world))" "\<lparr>totalFiles = 2, processedFiles = 2\<rparr>"] c r s d
  have p: "percentages (sr_sent (fst (scan_directory demo_platform (js ''/r'') (request None None) depth_world)))
       = [0, 100]
     \<and> sr_processed (fst (scan_directory demo_platform (js ''/r'') (request None None) depth_world)) = 2
     \<and> sr_total (fst (scan_directory demo_platform (js ''/r'') (request None None) depth_world)) = 2"
    by (simp add: percentage_of_full)
  from scan_progress_reports[OF m, of "js ''/r''" "request None None" depth_world] p
  have "sorted (percentages (sr_sent (fst (scan_directory demo_platform (js ''/r'') (request None None) depth_world))))
    \<and> ev_processed (last (filter is_progress
         (sr_sent (fst (scan_directory demo_platform (js ''/r'') (request None None) depth_world))))) = 2
    \<and> ev_total (last (filter is_progress
         (sr_sent (fst (scan_directory demo_platform (js ''/r'') (request None None) depth_world))))) = 2"
    by simp
  then show ?thesis using m p by simp
qed


section \<open>Duplicate detector: groups and sums\<close>

lemma extract_groups_sums:
  assumes "totalDuplicates acc = (\<Sum>g\<leftarrow>duplicateGroups acc. length (g_files g) - 1)"
    and "potentialSavings acc = (\<Sum>g\<leftarrow>duplicateGroups acc. g_size g * (length (g_files g) - 1))"
  shows "totalDuplicates (extract_groups pd acc)
           = (\<Sum>g\<leftarrow>duplicateGroups (extract_groups pd acc). length (g_files g) - 1)
       \<and> potentialSavings (extract_groups pd acc)
           = (\<Sum>g\<leftarrow>duplicateGroups (extract_groups pd acc). g_size g * (length (g_files g) - 1))"
  using assms
proof (induction pd arbitrary: acc)
  case Nil
  then show ?case by simp
next
  case (Cons kv pd)
  obtain h fs where kv: "kv = (h, fs)" by (cases kv)
  show ?case unfolding kv extract_groups.simps
    by (rule Cons.IH) (use Cons.prems in \<open>auto split: list.splits\<close>)
qed

lemma sum_list_sort_groups:
  fixes f :: "duplicate_group \<Rightarrow> nat"
  shows "(\<Sum>g\<leftarrow>sort_groups gs. f g) = (\<Sum>g\<leftarrow>gs. f g)"
proof -
  have "mset (map f (sort_groups gs)) = mset (map f gs)"
    by (simp add: sort_groups_def)
  then show ?thesis by (metis sum_mset_sum_list)
qed

lemma extract_groups_two_members:
  assumes "\<forall>g \<in> set (duplicateGroups acc). 2 \<le> length (g_files g)"
  shows "\<forall>g \<in> set (duplicateGroups (extract_groups pd acc)). 2 \<le> length (g_files g)"
  using assms
proof (induction pd arbitrary: acc)
  case Nil
  then show ?case by simp
next
  case (Cons kv pd)
  obtain h fs where kv: "kv = (h, fs)" by (cases kv)
  show ?case unfolding kv extract_groups.simps
    by (rule Cons.IH) (use Cons.prems in \<open>auto split: list.splits simp: Suc_le_eq\<close>)
qed

lemma find_duplicates_two_members:
  assumes "find_duplicates pf filePaths options w = (Inr res, evs, w')"
  shows "\<forall>g \<in> set (duplicateGroups res). 2 \<le> length (g_files g)"
proof -
  from assms obtain pd where
    res: "res = (extract_groups pd \<lparr>duplicateGroups = [], totalDuplicates = 0, potentialSavings = 0\<rparr>)
            \<lparr>duplicateGroups := sort_groups (duplicateGroups
               (extract_groups pd \<lparr>duplicateGroups = [], totalDuplicates = 0, potentialSavings = 0\<rparr>))\<rparr>"
    by (auto simp: find_duplicates_def Let_def split: if_splits)
  have "\<forall>g \<in> set (duplicateGroups (extract_groups pd
          \<lparr>duplicateGroups = [], totalDuplicates = 0, potentialSavings = 0\<rparr>)). 2 \<le> length (g_files g)"
    by (rule extract_groups_two_members) simp
  then show ?thesis by (simp add: res sort_groups_def)
qed

text \<open>
  C4: in every result of \<^verbatim>\<open>find-duplicates\<close>, \<open>totalDuplicates\<close> is the sum over the
  returned groups of the number of members less one, and \<open>potentialSavings\<close> the sum of
  the group's size times that number.
\<close>

theorem find_duplicates_sums:
  assumes "find_duplicates pf filePaths options w = (Inr res, evs, w')"
  shows "totalDuplicates res = (\<Sum>g\<leftarrow>duplicateGroups res. length (g_files g) - 1)
       \<and> potentialSavings res = (\<Sum>g\<leftarrow>duplicateGroups res. g_size g * (length (g_files g) - 1))"
proof -
  from assms obtain pd where
    res: "res = (extract_groups pd \<lparr>duplicateGroups = [], totalDuplicates = 0, potentialSavings = 0\<rparr>)
            \<lparr>duplicateGroups := sort_groups (duplicateGroups
               (extract_groups pd \<lparr>duplicateGroups = [], totalDuplicates = 0, potentialSavings = 0\<rparr>))\<rparr>"
    by (auto simp: find_duplicates_def Let_def split: if_splits)
  let ?r = "extract_groups pd \<lparr>duplicateGroups = [], totalDuplicates = 0, potentialSavings = 0\<rparr>"
  have "totalDuplicates ?r = (\<Sum>g\<leftarrow>duplicateGroups ?r. length (g_files g) - 1)
       \<and> potentialSavings ?r = (\<Sum>g\<leftarrow>duplicateGroups ?r. g_size g * (length (g_files g) - 1))"
    by (rule extract_groups_sums) simp_all
  then show ?thesis by (simp add: res sum_list_sort_groups)
qed

theorem find_duplicates_sums_witness:
  "\<exists>res evs w'. find_duplicates demo_platform
       (map js [''/s/a.bin'', ''/s/a2.bin'', ''/s/b.bin'', ''/s/b2.bin'']) sampled_options sampled_world
       = (Inr res, evs, w')
     \<and> length (duplicateGroups res) = 1
     \<and> totalDuplicates res = 3 \<and> potentialSavings res = 21
     \<and> (\<Sum>g\<leftarrow>duplicateGroups res. length (g_files g) - 1) = 3
     \<and> (\<Sum>g\<leftarrow>duplicateGroups res. g_size g * (length (g_files g) - 1)) = 21"
proof -
  let ?r = "find_duplicates demo_platform
       (map js [''/s/a.bin'', ''/s/a2.bin'', ''/s/b.bin'', ''/s/b2.bin'']) sampled_options sampled_world"
  have e: "isl (fst ?r) = False" by code_simp
  then have r: "?r = (Inr (projr (fst ?r)), fst (snd ?r), snd (snd ?r))"
    by (cases "fst ?r") (simp_all add: prod_eq_iff)
  have t: "length (duplicateGroups (projr (fst ?r))) = 1 \<and> totalDuplicates (projr (fst ?r)) = 3
      \<and> potentialSavings (projr (fst ?r)) = 21" by code_simp
  from find_duplicates_sums[OF r] t
  have "(\<Sum>g\<leftarrow>duplicateGroups (projr (fst ?r)). length (g_files g) - 1) = 3
      \<and> (\<Sum>g\<leftarrow>duplicateGroups (projr (fst ?r)). g_size g * (length (g_files g) - 1)) = 21"
    by simp
  with r t show ?thesis by blast
qed

text \<open>
  C3, evaluated: with sampled hashing (samples of 2 bytes), two files of 7 bytes and two
  of 8 bytes that agree on their first, middle and last two bytes have one digest. Each
  size bucket has two members, so all four files are pushed under that digest and come
  back as one group of recorded size 7 with two members of 8 bytes.
\<close>

theorem find_duplicates_mixed_sizes:
  "map (\<lambda>g. (g_hash g, g_size g, map dm_path (g_files g), map dm_size (g_files g)))
     (duplicateGroups (projr (fst (find_duplicates demo_platform
        (map js [''/s/a.bin'', ''/s/a2.bin'', ''/s/b.bin'', ''/s/b2.bin'']) sampled_options sampled_world))))
   = [(Some [1, 1, 2, 2, 3, 3], 7,
       map js [''/s/a.bin'', ''/s/a2.bin'', ''/s/b.bin'', ''/s/b2.bin''], [7, 7, 8, 8])]"
  by code_simp

text \<open>
  C7, evaluated: two files of the same size whose content cannot be read both get the
  hash \<^verbatim>\<open>null\<close> from \<^verbatim>\<open>calculateFileHash\<close>; they are not skipped but recorded under
  that hash, and come back as a duplicate group. Both are counted as processed, and the
  run is not aborted.
\<close>

theorem find_duplicates_groups_unhashed_files:
  "map (\<lambda>g. (g_hash g, g_size g, map dm_path (g_files g)))
     (duplicateGroups (projr (fst (find_duplicates unreadable_platform
        (map js [''/q/u1'', ''/q/u2'']) default_options unreadable_world))))
   = [(None, 3, map js [''/q/u1'', ''/q/u2''])]
   \<and> map dp_processed (fst (snd (find_duplicates unreadable_platform
        (map js [''/q/u1'', ''/q/u2'']) default_options unreadable_world))) = [0, 2]"
  by code_simp


section \<open>Duplicate detector: files that are skipped\<close>

lemma process_file_vanished:
  assumes "stat pf filePath (ds_world st) = (Inl e, w1)"
  shows "process_file pf options total_n filePath st = st\<lparr>ds_world := w1, processed := Suc (processed st)\<rparr>"
  using assms by (simp add: process_file_def skip_file_def)

lemma process_file_directory:
  assumes "stat pf filePath (ds_world st) = (Inr stats, w1)" and "isDirectory stats"
  shows "process_file pf options total_n filePath st = st\<lparr>ds_world := w1, processed := Suc (processed st)\<rparr>"
  using assms by (simp add: process_file_def skip_file_def)

lemma processed_process_file:
  "processed (process_file pf options total_n filePath st) = Suc (processed st)"
  by (auto simp: process_file_def skip_file_def report_duplicates_def record_file_def
      split: prod.splits sum.splits)

lemma processed_process_batch:
  "processed (process_batch pf options total_n batch st) = processed st + length batch"
  by (induction batch arbitrary: st) (simp_all add: processed_process_file)

lemma processed_process_batches:
  "processed (process_batches pf options total_n filePaths st) = processed st + length filePaths"
proof (induction pf options total_n filePaths st rule: process_batches.induct)
  case (1 pf options total_n filePaths st)
  show ?case
  proof (cases "filePaths = []")
    case True
    then show ?thesis by (subst process_batches.simps) simp
  next
    case False
    have "length (take BATCH_SIZE filePaths) + length (drop BATCH_SIZE filePaths) = length filePaths"
      by (metis append_take_drop_id length_append)
    then show ?thesis using False "1.IH"[OF False]
      by (subst process_batches.simps) (simp add: processed_process_batch)
  qed
qed

lemma find_duplicates_answers:
  assumes "\<not> (opt_scanDirectory options \<and> length filePaths = 1)"
  shows "\<exists>res. fst (find_duplicates pf filePaths options w) = Inr res"
  using assms by (simp add: find_duplicates_def Let_def)


section \<open>Backup store: restore into a missing directory\<close>

lemma files_next_tick [simp]: "files (next_tick w) = files w"
  by (simp add: next_tick_def)

lemma existsSync_files: "files w' = files w \<Longrightarrow> existsSync w' p = existsSync w p"
  by (simp add: existsSync_def lookup_def)

lemma stat_files: "stat pf p w = (r, w1) \<Longrightarrow> files w1 = files w"
  by (auto simp: stat_def split: option.splits)

lemma readFile_files: "readFile pf p w = (r, w1) \<Longrightarrow> files w1 = files w"
  by (auto simp: readFile_def split: option.splits if_splits)

lemma readdir_files: "readdir pf p w = (r, w1) \<Longrightarrow> files w1 = files w"
  by (auto simp: readdir_def split: option.splits if_splits)

lemma list_backup_files: "list_backup pf t f w = (r, w1) \<Longrightarrow> files w1 = files w"
  by (auto simp: list_backup_def split: prod.splits sum.splits if_splits option.splits
      dest!: stat_files readFile_files)

lemma list_backups_files: "list_backups pf t fs w = (rs, w1) \<Longrightarrow> files w1 = files w"
proof (induction fs arbitrary: w rs w1)
  case Nil
  then show ?case by simp
next
  case (Cons f fs)
  obtain r wa where a: "list_backup pf t f w = (r, wa)" by (cases "list_backup pf t f w")
  obtain rs' wb where b: "list_backups pf t fs wa = (rs', wb)" by (cases "list_backups pf t fs wa")
  have "w1 = wb" using Cons.prems a b by simp
  then show ?case using Cons.IH[OF b] list_backup_files[OF a] by simp
qed

lemma getBackupsList_files:
  assumes "existsSync w (join (userData pf) (js ''trash''))"
    and "getBackupsList pf w = (bs, w1)"
  shows "files w1 = files w"
proof -
  have t: "getTrashDirectory pf w = (Inr (join (userData pf) (js ''trash'')), w)"
    using assms(1) by (simp add: getTrashDirectory_def Let_def)
  obtain r wa where rd: "readdir pf (join (userData pf) (js ''trash'')) w = (r, wa)"
    by (cases "readdir pf (join (userData pf) (js ''trash'')) w")
  show ?thesis
  proof (cases r)
    case (Inl e)
    then show ?thesis using assms(2) t rd readdir_files[OF rd] by (simp add: getBackupsList_def)
  next
    case (Inr names)
    then have "list_backups pf (join (userData pf) (js ''trash''))
        (filter (\<lambda>f. \<not> endsWith f meta_suffix) names) wa = (bs, w1)"
      using assms(2) t rd by (simp add: getBackupsList_def)
    from list_backups_files[OF this] readdir_files[OF rd] show ?thesis by simp
  qed
qed

text \<open>
  C9: with the backup store in place, \<^verbatim>\<open>restoreBackup\<close> called with a target path whose
  parent directory does not exist returns a failure and leaves every file as it was (no
  copy is made); the failure is "Target directory does not exist: <parent>" whenever
  the identifier names a listed backup, and "Backup not found" otherwise.
\<close>

theorem restoreBackup_target_missing:
  assumes "existsSync w (join (userData pf) (js ''trash''))"
    and "t \<noteq> []"
    and "\<not> existsSync w (dirname t)"
  shows "\<exists>e w'. restoreBackup pf backupId (Some t) w = (Inl e, w')
           \<and> files w' = files w
           \<and> (find (\<lambda>b. b_id b = backupId) (fst (getBackupsList pf w)) \<noteq> None \<longrightarrow>
                e = js ''Target directory does not exist: '' @ dirname t)
           \<and> (find (\<lambda>b. b_id b = backupId) (fst (getBackupsList pf w)) = None \<longrightarrow>
                e = js ''Backup not found'')"
proof -
  obtain bs w1 where l: "getBackupsList pf w = (bs, w1)" by (cases "getBackupsList pf w")
  have f: "files w1 = files w" using getBackupsList_files[OF assms(1) l] .
  have nd: "\<not> existsSync w1 (dirname t)" using assms(3) existsSync_files[OF f] by simp
  show ?thesis
  proof (cases "find (\<lambda>b. b_id b = backupId) bs")
    case None
    then show ?thesis using l f by (simp add: restoreBackup_def)
  next
    case (Some b)
    then show ?thesis using l f nd assms(2) by (simp add: restoreBackup_def given_def Let_def)
  qed
qed

theorem restoreBackup_target_missing_witness:
  "existsSync restore_world (join (userData demo_platform) (js ''trash''))
   \<and> \<not> existsSync restore_world (dirname (js ''/nowhere/a.txt''))
   \<and> find (\<lambda>b. b_id b = demo_backup_id) (fst (getBackupsList demo_platform restore_world)) \<noteq> None
   \<and> fst (restoreBackup demo_platform demo_backup_id (Some (js ''/nowhere/a.txt'')) restore_world)
       = Inl (js ''Target directory does not exist: /nowhere'')
   \<and> files (snd (restoreBackup demo_platform demo_backup_id (Some (js ''/nowhere/a.txt'')) restore_world))
       = files restore_world"
proof -
  have a: "existsSync restore_world (join (userData demo_platform) (js ''trash''))" by code_simp
  have b: "js ''/nowhere/a.txt'' \<noteq> []" by (simp add: js_def)
  have c: "\<not> existsSync restore_world (dirname (js ''/nowhere/a.txt''))" by code_simp
  have d: "find (\<lambda>b. b_id b = demo_backup_id) (fst (getBackupsList demo_platform restore_world)) \<noteq> None"
    by code_simp
  have e: "js ''Target directory does not exist: '' @ dirname (js ''/nowhere/a.txt'')
      = js ''Target directory does not exist: /nowhere''" by code_simp
  from restoreBackup_target_missing[OF a b c, of demo_backup_id] d e
  have "fst (restoreBackup demo_platform demo_backup_id (Some (js ''/nowhere/a.txt'')) restore_world)
       = Inl (js ''Target directory does not exist: /nowhere'')
     \<and> files (snd (restoreBackup demo_platform demo_backup_id (Some (js ''/nowhere/a.txt'')) restore_world))
       = files restore_world"
    by auto
  then show ?thesis using a c d by simp
qed


end
